theory Spec2Isabelle
  imports Complex_Main "HOL-Library.Product_Lexorder" "HOL-Library.Multiset"
begin

section \<open>Values of a numpy float64 array\<close>

text \<open>
  The notebook \<^verbatim>\<open>01.06-Image-combination.ipynb\<close> works on \<^verbatim>\<open>bits\<close>, a two-dimensional
  numpy array of float64 made by \<^verbatim>\<open>np.random.randn\<close>. A value is a finite binary64 number,
  kept as the rational it denotes, an infinity or NaN. Every arithmetic operation rounds
  its exact result to binary64 (to nearest, ties to even).

  The sign of zero is not kept. It shows only in a division by zero, and the divisors of
  the notebook that can be zero are \<^verbatim>\<open>mad_sigma\<close> (a median of absolute values times a
  positive factor) and the count of \<^verbatim>\<open>np.nanmean\<close>, which are +0.
\<close>

datatype float64 = Fin rat | PInf | NInf | NaN

text \<open>Powers of two with an integer exponent.\<close>

definition pow2 :: "int \<Rightarrow> rat" where
  "pow2 e = (if 0 \<le> e then 2 ^ nat e else 1 / 2 ^ nat (- e))"

text \<open>
  The binary exponent of a number: \<open>ilog2 n\<close> is the integer part of the logarithm of a
  positive natural number, \<open>flog2 q\<close> that of \<open>\<bar>q\<bar>\<close> for a rational \<open>q \<noteq> 0\<close>.
\<close>

fun ilog2 :: "nat \<Rightarrow> nat" where
  "ilog2 n = (if n < 2 then 0 else Suc (ilog2 (n div 2)))"

definition flog2 :: "rat \<Rightarrow> int" where
  "flog2 q = (if 1 \<le> \<bar>q\<bar> then int (ilog2 (nat \<lfloor>\<bar>q\<bar>\<rfloor>))
              else if q = 0 then 0
              else - (1 + int (ilog2 (nat (\<lceil>1 / \<bar>q\<bar>\<rceil> - 1)))))"

text \<open>Rounding to the nearest integer, a tie going to the even one.\<close>

definition tie_even :: "int \<Rightarrow> rat \<Rightarrow> int" where
  "tie_even f r =
     (if r < 1 / 2 then f else if 1 / 2 < r then f + 1 else if even f then f else f + 1)"

definition round_half_even :: "rat \<Rightarrow> int" where
  "round_half_even x = tie_even \<lfloor>x\<rfloor> (x - of_int \<lfloor>x\<rfloor>)"

text \<open>
  binary64 has 53 significant bits and its smallest positive number is \<open>2 ^ -1074\<close>: the
  numbers next to \<open>q\<close> are \<open>pow2 (ulp_exp q)\<close> apart. A number is rounded to the nearest
  multiple of that step; a result of magnitude \<open>2 ^ 1024\<close> or more overflows to an
  infinity.
\<close>

definition ulp_exp :: "rat \<Rightarrow> int" where
  "ulp_exp q = max (flog2 q - 52) (- 1074)"

definition round_to :: "int \<Rightarrow> rat \<Rightarrow> rat" where
  "round_to e q = of_int (round_half_even (q / pow2 e)) * pow2 e"

definition round_val :: "rat \<Rightarrow> rat" where
  "round_val q = round_to (ulp_exp q) q"

definition range64 :: "rat \<Rightarrow> float64" where
  "range64 v =
     (if 2 ^ 1024 \<le> v then PInf else if v \<le> - (2 ^ 1024) then NInf else Fin v)"

definition round64 :: "rat \<Rightarrow> float64" where
  "round64 q = range64 (round_to (ulp_exp q) q)"

text \<open>
  The values a float64 array can hold: the infinities, NaN, and the rationals that
  rounding leaves as they are.
\<close>

definition is_f64 :: "float64 \<Rightarrow> bool" where
  "is_f64 x = (case x of Fin q \<Rightarrow> round64 q = Fin q | _ \<Rightarrow> True)"

definition is_finite :: "float64 \<Rightarrow> bool" where
  "is_finite x = (case x of Fin q \<Rightarrow> True | _ \<Rightarrow> False)"



text \<open>
  The arithmetic of IEEE 754: NaN propagates, \<open>inf - inf\<close>, \<open>0 * inf\<close>, \<open>0 / 0\<close> and
  \<open>inf / inf\<close> are NaN, \<open>x / 0\<close> is an infinity with the sign of \<open>x\<close>, and a comparison with
  NaN is false. numpy raises nothing here (it warns).
\<close>

definition fneg :: "float64 \<Rightarrow> float64" where
  "fneg x =
     (case x of Fin a \<Rightarrow> Fin (- a) | PInf \<Rightarrow> NInf | NInf \<Rightarrow> PInf | NaN \<Rightarrow> NaN)"

definition fabs :: "float64 \<Rightarrow> float64" where
  "fabs x =
     (case x of Fin a \<Rightarrow> Fin \<bar>a\<bar> | PInf \<Rightarrow> PInf | NInf \<Rightarrow> PInf | NaN \<Rightarrow> NaN)"

definition fadd :: "float64 \<Rightarrow> float64 \<Rightarrow> float64" where
  "fadd x y =
     (case x of
        NaN \<Rightarrow> NaN
      | Fin a \<Rightarrow> (case y of Fin b \<Rightarrow> round64 (a + b) | _ \<Rightarrow> y)
      | PInf \<Rightarrow> (case y of NaN \<Rightarrow> NaN | NInf \<Rightarrow> NaN | _ \<Rightarrow> PInf)
      | NInf \<Rightarrow> (case y of NaN \<Rightarrow> NaN | PInf \<Rightarrow> NaN | _ \<Rightarrow> NInf))"

definition fsub :: "float64 \<Rightarrow> float64 \<Rightarrow> float64" where
  "fsub x y = fadd x (fneg y)"

definition fsgn :: "float64 \<Rightarrow> rat" where
  "fsgn x = (case x of Fin a \<Rightarrow> sgn a | PInf \<Rightarrow> 1 | NInf \<Rightarrow> - 1 | NaN \<Rightarrow> 0)"

definition inf_of_sign :: "rat \<Rightarrow> float64" where
  "inf_of_sign s = (if 0 < s then PInf else if s < 0 then NInf else NaN)"

definition fmul :: "float64 \<Rightarrow> float64 \<Rightarrow> float64" where
  "fmul x y =
     (if x = NaN \<or> y = NaN then NaN
      else case (x, y) of
        (Fin a, Fin b) \<Rightarrow> round64 (a * b)
      | _ \<Rightarrow> inf_of_sign (fsgn x * fsgn y))"

definition fdiv :: "float64 \<Rightarrow> float64 \<Rightarrow> float64" where
  "fdiv x y =
     (if x = NaN \<or> y = NaN then NaN
      else case (x, y) of
        (Fin a, Fin b) \<Rightarrow> (if b = 0 then inf_of_sign a else round64 (a / b))
      | (Fin a, _) \<Rightarrow> Fin 0
      | (_, Fin b) \<Rightarrow> (if 0 \<le> b then x else fneg x)
      | _ \<Rightarrow> NaN)"

text \<open>The order numpy sorts by: minus infinity first, NaN last.\<close>

definition fkey :: "float64 \<Rightarrow> int \<times> rat" where
  "fkey x =
     (case x of NInf \<Rightarrow> (- 1, 0) | Fin a \<Rightarrow> (0, a) | PInf \<Rightarrow> (1, 0) | NaN \<Rightarrow> (2, 0))"

definition fgt :: "float64 \<Rightarrow> float64 \<Rightarrow> bool" where
  "fgt x y = (x \<noteq> NaN \<and> y \<noteq> NaN \<and> fkey y < fkey x)"

section \<open>The numpy and astropy functions the notebook calls\<close>

text \<open>
  \<^verbatim>\<open>bits\<close> has shape (N, P): N images (the rows) of P pixels each. The number of pixels is
  kept beside the rows, since an array may have no row. The array is in C order, as
  \<^verbatim>\<open>np.random.randn\<close> makes it: the rows lie one after another in memory. All the functions
  are called with \<^verbatim>\<open>axis=0\<close>: they work on the N samples of each pixel, a column.
\<close>

record ndarray =
  n_cols :: nat
  rows :: "float64 list list"

definition wf_array :: "ndarray \<Rightarrow> bool" where
  "wf_array a = list_all (\<lambda>r. length r = n_cols a) (rows a)"

definition column :: "ndarray \<Rightarrow> nat \<Rightarrow> float64 list" where
  "column a j = map (\<lambda>r. r ! j) (rows a)"

text \<open>
  \<^verbatim>\<open>np.median\<close>: NaN for no sample or when a sample is NaN; otherwise the middle one of the
  sorted samples, or the mean of the two middle ones, computed as their sum divided by 2.
\<close>

definition middle :: "float64 list \<Rightarrow> float64" where
  "middle s =
     (if odd (length s) then s ! (length s div 2)
      else fdiv (fadd (s ! (length s div 2 - 1)) (s ! (length s div 2))) (Fin 2))"

definition np_median :: "float64 list \<Rightarrow> float64" where
  "np_median xs =
     (if xs = [] then NaN else if NaN \<in> set xs then NaN else middle (sort_key fkey xs))"

definition np_median_axis0 :: "ndarray \<Rightarrow> float64 list" where
  "np_median_axis0 a = map (\<lambda>j. np_median (column a j)) [0..<n_cols a]"

text \<open>
  \<^verbatim>\<open>mad_std\<close> of astropy: \<^verbatim>\<open>median_absolute_deviation(data, axis) * 1.482602218505602\<close>,
  where the median absolute deviation is
  \<^verbatim>\<open>np.median(np.abs(data - np.median(data, axis)), axis)\<close> with the median broadcast over
  the rows. The factor is the float64 that Python reads the literal as; the spec and the
  prose of the notebook round it to 1.4826.
\<close>

definition mad_factor :: float64 where
  "mad_factor = round64 (1482602218505602 / 1000000000000000)"

definition median_absolute_deviation :: "ndarray \<Rightarrow> float64 list" where
  "median_absolute_deviation a =
     (let data_median = np_median_axis0 a
      in np_median_axis0
           (a\<lparr>rows := map (\<lambda>r. map2 (\<lambda>x m. fabs (fsub x m)) r data_median) (rows a)\<rparr>))"

definition mad_std :: "ndarray \<Rightarrow> float64 list" where
  "mad_std a = map (\<lambda>m. fmul m mad_factor) (median_absolute_deviation a)"

text \<open>
  The sum behind \<^verbatim>\<open>np.nanmean\<close>, \<^verbatim>\<open>np.add.reduce\<close> along axis 0, starts from 0. In an
  array of more than one column numpy adds the rows to the result one after another, so
  the samples of a pixel are added one after another. In an array of one column the
  samples lie next to each other in memory, and numpy adds their pairwise sum to the
  result: fewer than 8 samples are added one after another; up to 128 samples are added
  into eight interleaved accumulators, the accumulators are added in pairs, and the
  samples left over (fewer than 8) are added one after another; a longer column is cut in
  two, the first part of a length divisible by 8, and the sums of the parts are added.
\<close>

function accumulate8 :: "float64 list \<Rightarrow> float64 list \<Rightarrow> float64 list \<times> float64 list" where
  "accumulate8 r xs =
     (if length xs < 8 then (r, xs)
      else accumulate8 (map2 fadd r (take 8 xs)) (drop 8 xs))"
  by pat_completeness auto
termination
  by (relation "measure (\<lambda>(r, xs). length xs)") auto

definition combine8 :: "float64 list \<Rightarrow> float64" where
  "combine8 r =
     fadd (fadd (fadd (r ! 0) (r ! 1)) (fadd (r ! 2) (r ! 3)))
          (fadd (fadd (r ! 4) (r ! 5)) (fadd (r ! 6) (r ! 7)))"

definition block_sum :: "float64 list \<Rightarrow> float64" where
  "block_sum xs =
     (case accumulate8 (take 8 xs) (drop 8 xs) of (r, rest) \<Rightarrow> foldl fadd (combine8 r) rest)"

function pairwise_sum :: "float64 list \<Rightarrow> float64" where
  "pairwise_sum xs =
     (if length xs < 8 then foldl fadd (Fin 0) xs
      else if length xs \<le> 128 then block_sum xs
      else fadd (pairwise_sum (take (length xs div 2 - length xs div 2 mod 8) xs))
                (pairwise_sum (drop (length xs div 2 - length xs div 2 mod 8) xs)))"
  by pat_completeness auto
termination
  by (relation "measure length") auto

definition np_sum :: "bool \<Rightarrow> float64 list \<Rightarrow> float64" where
  "np_sum one_column xs =
     (if one_column then fadd (Fin 0) (pairwise_sum xs) else foldl fadd (Fin 0) xs)"

text \<open>
  \<^verbatim>\<open>np.nanmean\<close>: the NaN samples are replaced by 0 and summed with the others, and the
  sum is divided by the number of samples that are not NaN. With no such sample the
  result is 0 / 0, NaN; numpy warns and raises nothing.
\<close>

definition nanmean_col :: "bool \<Rightarrow> float64 list \<Rightarrow> float64" where
  "nanmean_col one_column xs =
     fdiv (np_sum one_column (map (\<lambda>x. if x = NaN then Fin 0 else x) xs))
          (Fin (of_nat (length (filter (\<lambda>x. x \<noteq> NaN) xs))))"

definition nanmean_axis0 :: "ndarray \<Rightarrow> float64 list" where
  "nanmean_axis0 a = map (\<lambda>j. nanmean_col (n_cols a = 1) (column a j)) [0..<n_cols a]"

section \<open>Boolean-mask indexing\<close>

text \<open>
  \<^verbatim>\<open>bits[exclude]\<close> lists the samples where the mask is True, row by row;
  \<^verbatim>\<open>bits[exclude] = np.nan\<close> overwrites them; \<^verbatim>\<open>bits[exclude] = original_values\<close> writes
  a list of values back to those places, in the same order, and raises ValueError when
  the list has another length than the mask has True entries.
\<close>

datatype error = ValueError

definition mask_select :: "bool list list \<Rightarrow> float64 list list \<Rightarrow> float64 list" where
  "mask_select ms rs = concat (map2 (\<lambda>m r. map snd (filter fst (zip m r))) ms rs)"

definition mask_fill ::
  "float64 \<Rightarrow> bool list list \<Rightarrow> float64 list list \<Rightarrow> float64 list list" where
  "mask_fill v ms rs = map2 (\<lambda>m r. map2 (\<lambda>b x. if b then v else x) m r) ms rs"

fun scatter :: "bool list \<Rightarrow> float64 list \<Rightarrow> float64 list \<Rightarrow> float64 list" where
  "scatter (True # bs) (x # xs) (v # vs) = v # scatter bs xs vs"
| "scatter (False # bs) (x # xs) vs = x # scatter bs xs vs"
| "scatter bs xs vs = xs"

definition count_true :: "bool list \<Rightarrow> nat" where
  "count_true bs = length (filter (\<lambda>b. b) bs)"

fun scatter_rows ::
  "bool list list \<Rightarrow> float64 list list \<Rightarrow> float64 list \<Rightarrow> float64 list list" where
  "scatter_rows (m # ms) (r # rs) vs =
     scatter m r vs # scatter_rows ms rs (drop (count_true m) vs)"
| "scatter_rows ms rs vs = rs"

definition mask_assign ::
  "bool list list \<Rightarrow> float64 list \<Rightarrow> float64 list list \<Rightarrow> error + float64 list list" where
  "mask_assign ms vs rs =
     (if length vs \<noteq> sum_list (map count_true ms) then Inl ValueError
      else Inr (scatter_rows ms rs vs))"

section \<open>The sigma-clipping cells of the notebook\<close>

text \<open>
  \<^verbatim>\<open>
  median = np.median(bits, axis=0)
  mad_sigma = mad_std(bits, axis=0)
  exclude = (bits - median) / mad_sigma > 10
  \<close>
  \<^verbatim>\<open>median\<close> and \<^verbatim>\<open>mad_sigma\<close> have one entry for each pixel and are broadcast over the
  rows of \<^verbatim>\<open>bits\<close>.
\<close>

definition clip_mask ::
  "float64 list list \<Rightarrow> float64 list \<Rightarrow> float64 list \<Rightarrow> bool list list" where
  "clip_mask rs median mad_sigma =
     map (\<lambda>r. map (\<lambda>(x, m, s). fgt (fdiv (fsub x m) s) (Fin 10))
                     (zip r (zip median mad_sigma))) rs"

definition exclude :: "ndarray \<Rightarrow> bool list list" where
  "exclude bits = clip_mask (rows bits) (np_median_axis0 bits) (mad_std bits)"

text \<open>
  \<^verbatim>\<open>
  original_values = bits[exclude]
  bits[exclude] = np.nan
  clip_combine = np.nanmean(bits, axis=0)
  bits[exclude] = original_values
  \<close>
  The cell changes \<^verbatim>\<open>bits\<close> in place: the result is the array it leaves behind together
  with the combined image.
\<close>

definition clip_combine :: "ndarray \<Rightarrow> error + ndarray \<times> float64 list" where
  "clip_combine bits =
     (let excl = exclude bits;
          original_values = mask_select excl (rows bits);
          bits1 = bits\<lparr>rows := mask_fill NaN excl (rows bits)\<rparr>;
          combined = nanmean_axis0 bits1
      in case mask_assign excl original_values (rows bits1) of
           Inl e \<Rightarrow> Inl e
         | Inr rs \<Rightarrow> Inr (bits1\<lparr>rows := rs\<rparr>, combined))"

text \<open>
  The combined image the cell leaves in \<^verbatim>\<open>clip_combine\<close>; a stack made of \<open>n\<close> copies
  of one image; and the stack of as many copies of the combined image as the original
  stack has images.
\<close>

definition combined_image :: "ndarray \<Rightarrow> float64 list" where
  "combined_image bits = snd (projr (clip_combine bits))"

definition copies :: "nat \<Rightarrow> float64 list \<Rightarrow> ndarray" where
  "copies n img = \<lparr>n_cols = length img, rows = replicate n img\<rparr>"

definition recombine :: "ndarray \<Rightarrow> ndarray" where
  "recombine bits = copies (length (rows bits)) (combined_image bits)"

section \<open>The quantities of the specification\<close>

text \<open>
  The per-pixel quantities as the specification words them, over the samples of one pixel
  (one column of the array): RobustLocation is the median of the samples, RobustScale is
  the median of the absolute deviations of the samples from RobustLocation times the
  factor of \<^verbatim>\<open>mad_std\<close> (1.4826 in the rounding of the specification), the signed deviation
  of a sample is (sample - RobustLocation) / RobustScale, and a sample is rejected when its
  deviation is above \<open>high_threshold\<close> or below \<open>- low_threshold\<close>.
\<close>

definition RobustLocation :: "float64 list \<Rightarrow> float64" where
  "RobustLocation samples = np_median samples"

definition RobustScale :: "float64 list \<Rightarrow> float64" where
  "RobustScale samples =
     fmul (np_median (map (\<lambda>x. fabs (fsub x (RobustLocation samples))) samples)) mad_factor"

definition signed_deviation :: "ndarray \<Rightarrow> nat \<Rightarrow> nat \<Rightarrow> float64" where
  "signed_deviation bits i j =
     fdiv (fsub (rows bits ! i ! j) (RobustLocation (column bits j)))
          (RobustScale (column bits j))"

definition spec_rejected :: "float64 \<Rightarrow> float64 \<Rightarrow> float64 \<Rightarrow> bool" where
  "spec_rejected low_threshold high_threshold d =
     (fgt d high_threshold \<or> fgt (fneg low_threshold) d)"

text \<open>
  The median as the specification means it, said without sorting. A value has rank k
  (counted from 0) among the samples when it is one of them, at most k samples are smaller
  and at most n - 1 - k samples are greater. The median of an odd number of samples is the
  sample of the middle rank; the median of an even number of samples is the mean of the
  samples of the two middle ranks, their binary64 sum divided by 2.
\<close>

definition is_order_statistic :: "nat \<Rightarrow> float64 \<Rightarrow> float64 list \<Rightarrow> bool" where
  "is_order_statistic k v xs =
     (k < length xs \<and> v \<in> set xs \<and> length (filter (\<lambda>x. fgt v x) xs) \<le> k \<and>
      length (filter (\<lambda>x. fgt x v) xs) \<le> length xs - Suc k)"

definition is_median :: "float64 \<Rightarrow> float64 list \<Rightarrow> bool" where
  "is_median m xs =
     (if odd (length xs) then is_order_statistic (length xs div 2) m xs
      else list_ex (\<lambda>a. list_ex (\<lambda>b.
             is_order_statistic (length xs div 2 - 1) a xs \<and>
             is_order_statistic (length xs div 2) b xs \<and>
             m = fdiv (fadd a b) (Fin 2)) xs) xs)"

text \<open>
  The product of a positive factor and a binary64 value, rounded to binary64; an infinity
  and NaN stay what they are.
\<close>

definition scaled_by :: "rat \<Rightarrow> float64 \<Rightarrow> float64" where
  "scaled_by c d = (case d of Fin q \<Rightarrow> round64 (c * q) | _ \<Rightarrow> d)"

section \<open>Example stacks\<close>

text \<open>Five images of one pixel; the last sample lies far above the others.\<close>

definition high_outlier_stack :: ndarray where
  "high_outlier_stack =
     \<lparr>n_cols = 1, rows = [[Fin 0], [Fin 1], [Fin 2], [Fin 3], [Fin 100]]\<rparr>"

text \<open>The last sample lies between 5 and 10 robust sigmas above the median.\<close>

definition mild_outlier_stack :: ndarray where
  "mild_outlier_stack =
     \<lparr>n_cols = 1, rows = [[Fin 0], [Fin 1], [Fin 2], [Fin 3], [Fin 12]]\<rparr>"

text \<open>Three equal samples and one below them: the median absolute deviation is zero.\<close>

definition zero_mad_stack :: ndarray where
  "zero_mad_stack = \<lparr>n_cols = 1, rows = [[Fin 5], [Fin 5], [Fin 5], [Fin 0]]\<rparr>"

text \<open>No image at all, of one pixel.\<close>

definition empty_stack :: ndarray where
  "empty_stack = \<lparr>n_cols = 1, rows = []\<rparr>"

text \<open>The mirror images of the first and the third stack.\<close>

definition low_outlier_stack :: ndarray where
  "low_outlier_stack =
     \<lparr>n_cols = 1, rows = [[Fin 100], [Fin 99], [Fin 98], [Fin 97], [Fin 0]]\<rparr>"

definition zero_mad_high_stack :: ndarray where
  "zero_mad_high_stack = \<lparr>n_cols = 1, rows = [[Fin 5], [Fin 5], [Fin 5], [Fin 10]]\<rparr>"

text \<open>The binary64 numbers nearest to 0.1 and to 0.9, what Python reads these literals as.\<close>

definition tenth :: float64 where
  "tenth = Fin (3602879701896397 / 36028797018963968)"

definition nine_tenths :: float64 where
  "nine_tenths = Fin (8106479329266893 / 9007199254740992)"

text \<open>Three images whose only pixel is 0.1, and seven images whose only pixel is 0.9.\<close>

definition tenth_stack :: ndarray where
  "tenth_stack = copies 3 [tenth]"

definition nine_tenths_stack :: ndarray where
  "nine_tenths_stack = copies 7 [nine_tenths]"

text \<open>Eight images whose only pixel is 0.1, and eight images of two pixels 0.1.\<close>

definition eight_tenths_stack :: ndarray where
  "eight_tenths_stack = copies 8 [tenth]"

definition eight_tenths_pairs_stack :: ndarray where
  "eight_tenths_pairs_stack = copies 8 [tenth, tenth]"

text \<open>One image of three pixels: 0.1, 1000 and NaN.\<close>

definition single_image_stack :: ndarray where
  "single_image_stack = \<lparr>n_cols = 3, rows = [[tenth, Fin 1000, NaN]]\<rparr>"

section \<open>Evaluation rules\<close>

text \<open>
  Rewrite rules that let the simplifier compute the rounding of a concrete rational and
  the functions above on concrete arrays.
\<close>

lemma ilog2_small: "ilog2 0 = 0" "ilog2 1 = 0" "ilog2 (Suc 0) = 0"
  by simp_all

lemma ilog2_Bit0: "ilog2 (numeral (Num.Bit0 k)) = Suc (ilog2 (numeral k))"
  by (subst ilog2.simps) (simp del: ilog2.simps add: numeral_Bit0_div_2)

lemma ilog2_Bit1: "ilog2 (numeral (Num.Bit1 k)) = Suc (ilog2 (numeral k))"
  by (subst ilog2.simps) (simp del: ilog2.simps add: numeral_Bit1_div_2)

declare ilog2.simps [simp del]

lemmas ilog2_eval = ilog2_small ilog2_Bit0 ilog2_Bit1

lemma floor_rat_eval:
  "\<lfloor>numeral a / numeral b :: rat\<rfloor> = numeral a div numeral b"
  "\<lfloor>- (numeral a / numeral b) :: rat\<rfloor> = - numeral a div numeral b"
  "\<lfloor>1 / numeral b :: rat\<rfloor> = 1 div numeral b"
  "\<lfloor>- (1 / numeral b) :: rat\<rfloor> = - 1 div numeral b"
proof -
  show "\<lfloor>numeral a / numeral b :: rat\<rfloor> = numeral a div numeral b"
    using floor_divide_of_int_eq [of "numeral a" "numeral b", where ?'a = rat] by simp
  show "\<lfloor>- (numeral a / numeral b) :: rat\<rfloor> = - numeral a div numeral b"
    using floor_divide_of_int_eq [of "- numeral a" "numeral b", where ?'a = rat] by simp
  show "\<lfloor>1 / numeral b :: rat\<rfloor> = 1 div numeral b"
    using floor_divide_of_int_eq [of 1 "numeral b", where ?'a = rat] by simp
  show "\<lfloor>- (1 / numeral b) :: rat\<rfloor> = - 1 div numeral b"
    using floor_divide_of_int_eq [of "- 1" "numeral b", where ?'a = rat] by simp
qed

lemma ceiling_rat_eval:
  "\<lceil>numeral a / numeral b :: rat\<rceil> = - (- numeral a div numeral b)"
  "\<lceil>1 / numeral b :: rat\<rceil> = - (- 1 div numeral b)"
  unfolding ceiling_def
  using floor_rat_eval(2) [of a b] floor_rat_eval(4) [of b] by simp_all

lemmas round64_eval =
  round64_def range64_def round_to_def ulp_exp_def flog2_def round_half_even_def tie_even_def
  pow2_def ilog2_eval
  floor_rat_eval ceiling_rat_eval

lemmas float_eval =
  fadd_def fsub_def fneg_def fabs_def fmul_def fdiv_def fgt_def fkey_def fsgn_def
  inf_of_sign_def

lemma round64_0: "round64 0 = Fin 0"
  by (simp add: round64_eval)

declare accumulate8.simps [simp del] pairwise_sum.simps [simp del]

lemma accumulate8_done: "length xs < 8 \<Longrightarrow> accumulate8 r xs = (r, xs)"
  by (subst accumulate8.simps) simp

lemma accumulate8_step:
  "8 \<le> length xs \<Longrightarrow> accumulate8 r xs = accumulate8 (map2 fadd r (take 8 xs)) (drop 8 xs)"
  by (subst accumulate8.simps) simp

lemma pairwise_sum_short: "length xs < 8 \<Longrightarrow> pairwise_sum xs = foldl fadd (Fin 0) xs"
  by (subst pairwise_sum.simps) simp

lemma pairwise_sum_block:
  "8 \<le> length xs \<Longrightarrow> length xs \<le> 128 \<Longrightarrow> pairwise_sum xs = block_sum xs"
  by (subst pairwise_sum.simps) simp

lemmas sum_eval =
  np_sum_def pairwise_sum_short pairwise_sum_block block_sum_def combine8_def
  accumulate8_done accumulate8_step

lemmas array_eval =
  column_def np_median_def middle_def np_median_axis0_def median_absolute_deviation_def
  mad_std_def nanmean_col_def nanmean_axis0_def mask_select_def mask_fill_def count_true_def
  mask_assign_def exclude_def clip_mask_def Let_def sum_eval

lemma replicate_eval:
  "replicate 3 x = [x, x, x]"
  "replicate 7 x = [x, x, x, x, x, x, x]"
  "replicate 8 x = [x, x, x, x, x, x, x, x]"
  by (simp_all add: eval_nat_numeral)

lemma mad_factor_value: "mad_factor = Fin (1669261699700125 / 1125899906842624)"
  by (simp add: mad_factor_def round64_eval)

section \<open>The masked overwrite is undone\<close>

text \<open>
  Writing \<^verbatim>\<open>original_values\<close> back through the mask restores the rows that were filled
  with NaN, so on a rectangular array the cell returns the array it was given.
\<close>

lemma select_row_length:
  "length m = length r \<Longrightarrow> length (filter fst (zip m r)) = count_true m"
  by (induction m r rule: list_induct2) (auto simp: count_true_def)

lemma mask_select_length:
  "list_all2 (\<lambda>m r. length m = length r) ms rs \<Longrightarrow>
   length (mask_select ms rs) = sum_list (map count_true ms)"
  by (induction ms rs rule: list_all2_induct)
     (auto simp: mask_select_def select_row_length length_concat)

lemma scatter_fill:
  "length m = length r \<Longrightarrow>
   scatter m (map2 (\<lambda>b x. if b then v else x) m r)
     (map snd (filter fst (zip m r)) @ rest) = r"
  by (induction m r rule: list_induct2) auto

lemma scatter_rows_fill:
  "list_all2 (\<lambda>m r. length m = length r) ms rs \<Longrightarrow>
   scatter_rows ms (mask_fill v ms rs) (mask_select ms rs @ rest) = rs"
proof (induction ms rs rule: list_all2_induct)
  case Nil
  then show ?case by (simp add: mask_fill_def)
next
  case (Cons m ms r rs)
  have sel: "mask_select (m # ms) (r # rs) = map snd (filter fst (zip m r)) @ mask_select ms rs"
    by (simp add: mask_select_def)
  have "drop (count_true m) (map snd (filter fst (zip m r)) @ mask_select ms rs @ rest)
        = mask_select ms rs @ rest"
    using select_row_length [OF Cons.hyps(1)] by simp
  with Cons show ?case
    using scatter_fill [OF Cons.hyps(1), of v "mask_select ms rs @ rest"]
    by (simp add: sel) (simp add: mask_fill_def)
qed

lemma np_median_axis0_length: "length (np_median_axis0 a) = n_cols a"
  by (simp add: np_median_axis0_def)

lemma mad_std_length: "length (mad_std a) = n_cols a"
  by (simp add: mad_std_def median_absolute_deviation_def np_median_axis0_def)

lemma clip_mask_shape:
  "length median = n \<Longrightarrow> length mad_sigma = n \<Longrightarrow> list_all (\<lambda>r. length r = n) rs \<Longrightarrow>
   list_all2 (\<lambda>m r. length m = length r) (clip_mask rs median mad_sigma) rs"
  by (induction rs) (auto simp: clip_mask_def)

lemma exclude_shape:
  "wf_array bits \<Longrightarrow> list_all2 (\<lambda>m r. length m = length r) (exclude bits) (rows bits)"
  unfolding exclude_def wf_array_def
  by (rule clip_mask_shape) (simp_all add: np_median_axis0_length mad_std_length)

lemma clip_combine_returns:
  assumes "wf_array bits"
  shows "clip_combine bits =
         Inr (bits, nanmean_axis0 (bits\<lparr>rows := mask_fill NaN (exclude bits) (rows bits)\<rparr>))"
proof -
  let ?e = "exclude bits"
  have sh: "list_all2 (\<lambda>m r. length m = length r) ?e (rows bits)"
    using assms by (rule exclude_shape)
  have len: "length (mask_select ?e (rows bits)) = sum_list (map count_true ?e)"
    using sh by (rule mask_select_length)
  have restored: "scatter_rows ?e (mask_fill NaN ?e (rows bits)) (mask_select ?e (rows bits)) = rows bits"
    using scatter_rows_fill [OF sh, of NaN "[]"] by simp
  show ?thesis
    by (simp add: clip_combine_def Let_def mask_assign_def len restored)
qed


section \<open>The array operations, pixel by pixel\<close>

text \<open>
  What \<^verbatim>\<open>mad_std\<close> and \<^verbatim>\<open>exclude\<close> hold for one pixel, in terms of the samples of
  that pixel.
\<close>

lemma column_nth: "i < length (rows a) \<Longrightarrow> column a j ! i = rows a ! i ! j"
  by (simp add: column_def)

lemma np_median_axis0_nth: "j < n_cols a \<Longrightarrow> np_median_axis0 a ! j = np_median (column a j)"
  by (simp add: np_median_axis0_def)

lemma column_map2:
  assumes "wf_array a" and "j < n_cols a" and "length v = n_cols a"
  shows "column (a\<lparr>rows := map (\<lambda>r. map2 g r v) (rows a)\<rparr>) j = map (\<lambda>x. g x (v ! j)) (column a j)"
  using assms by (auto simp: column_def wf_array_def list_all_iff)

lemma mad_std_nth:
  assumes "wf_array a" and "j < n_cols a"
  shows "mad_std a ! j = RobustScale (column a j)"
proof -
  let ?dm = "np_median_axis0 a"
  let ?a' = "a\<lparr>rows := map (\<lambda>r. map2 (\<lambda>x m. fabs (fsub x m)) r ?dm) (rows a)\<rparr>"
  have c: "column ?a' j = map (\<lambda>x. fabs (fsub x (?dm ! j))) (column a j)"
    using assms by (intro column_map2) (simp_all add: np_median_axis0_length)
  have "median_absolute_deviation a ! j = np_median (column ?a' j)"
    using assms(2) by (simp add: median_absolute_deviation_def Let_def np_median_axis0_def)
  then show ?thesis
    using assms(2)
    by (simp add: mad_std_def median_absolute_deviation_def np_median_axis0_length
        RobustScale_def RobustLocation_def c np_median_axis0_nth)
qed

lemma exclude_nth:
  assumes "wf_array a" and "i < length (rows a)" and "j < n_cols a"
  shows "exclude a ! i ! j = fgt (signed_deviation a i j) (Fin 10)"
proof -
  have l: "length (rows a ! i) = n_cols a"
    using assms(1,2) by (simp add: wf_array_def list_all_length)
  show ?thesis
    using assms l
    by (simp add: exclude_def clip_mask_def np_median_axis0_length mad_std_length
        signed_deviation_def RobustLocation_def mad_std_nth np_median_axis0_nth)
qed

section \<open>Rounding to binary64\<close>

text \<open>
  The binary exponent brackets a rational between two powers of two, a number on the grid
  of a step is rounded to itself, and twice a binary64 number is a binary64 number or
  overflows.
\<close>

lemma pow2_powi: "pow2 e = 2 powi e"
  by (simp add: pow2_def power_int_def inverse_eq_divide power_one_over)

lemma pow2_pos: "0 < pow2 e"
  by (simp add: pow2_powi)

lemma pow2_add: "pow2 (a + b) = pow2 a * pow2 b"
  by (simp add: pow2_powi power_int_add)

lemma pow2_Suc: "pow2 (e + 1) = 2 * pow2 e"
  by (simp add: pow2_add) (simp add: pow2_def)

lemma pow2_less_iff: "pow2 a < pow2 b \<longleftrightarrow> a < b"
proof
  assume "pow2 a < pow2 b"
  show "a < b"
  proof (rule ccontr)
    assume "\<not> a < b"
    then have "b \<le> a" by simp
    then have "pow2 b \<le> pow2 a"
      unfolding pow2_powi by (intro power_int_increasing) simp_all
    with \<open>pow2 a < pow2 b\<close> show False by simp
  qed
next
  assume "a < b"
  then show "pow2 a < pow2 b"
    unfolding pow2_powi by (intro power_int_strict_increasing) simp_all
qed

lemma pow2_le_iff: "pow2 a \<le> pow2 b \<longleftrightarrow> a \<le> b"
  using pow2_less_iff [of b a] by (simp add: not_less [symmetric])

lemma pow2_nat: "pow2 (int n) = 2 ^ n"
  by (simp add: pow2_def)

lemma pow2_neg_nat: "pow2 (- int n) = 1 / 2 ^ n"
  by (auto simp: pow2_def)

lemma ilog2_bounds: "0 < n \<Longrightarrow> 2 ^ ilog2 n \<le> n \<and> n < 2 ^ Suc (ilog2 n)"
proof (induction n rule: ilog2.induct)
  case (1 n)
  show ?case
  proof (cases "n < 2")
    case True
    with "1.prems" have "n = 1" by simp
    then show ?thesis by (simp add: ilog2_small)
  next
    case False
    then have "0 < n div 2" by simp
    with 1 False have ih: "2 ^ ilog2 (n div 2) \<le> n div 2" "n div 2 < 2 ^ Suc (ilog2 (n div 2))"
      by simp_all
    have e: "ilog2 n = Suc (ilog2 (n div 2))"
      using False by (subst ilog2.simps) simp
    from ih show ?thesis
      unfolding e by simp linarith
  qed
qed

lemma flog2_bounds:
  assumes "q \<noteq> 0"
  shows "pow2 (flog2 q) \<le> \<bar>q\<bar> \<and> \<bar>q\<bar> < pow2 (flog2 q + 1)"
proof (cases "1 \<le> \<bar>q\<bar>")
  case True
  define m where "m = nat \<lfloor>\<bar>q\<bar>\<rfloor>"
  have fl: "1 \<le> \<lfloor>\<bar>q\<bar>\<rfloor>" using True by simp
  then have m0: "0 < m" and mi: "int m = \<lfloor>\<bar>q\<bar>\<rfloor>" by (simp_all add: m_def)
  from ilog2_bounds [OF m0] have b: "2 ^ ilog2 m \<le> m" "m < 2 ^ Suc (ilog2 m)" by simp_all
  have f: "flog2 q = int (ilog2 m)"
    using True by (simp add: flog2_def m_def)
  have "(2::rat) ^ ilog2 m \<le> of_nat m"
    using b(1) by (metis of_nat_le_iff of_nat_numeral of_nat_power)
  also have "(of_nat m :: rat) = of_int \<lfloor>\<bar>q\<bar>\<rfloor>"
    using mi by (metis of_int_of_nat_eq)
  also have "\<dots> \<le> \<bar>q\<bar>" by simp
  finally have lo: "pow2 (flog2 q) \<le> \<bar>q\<bar>"
    by (simp add: f pow2_nat)
  have "int m + 1 \<le> 2 ^ Suc (ilog2 m)"
    using b(2) by (metis Suc_leI int_Suc of_nat_le_iff of_nat_numeral of_nat_power)
  then have "\<lfloor>\<bar>q\<bar>\<rfloor> + 1 \<le> 2 ^ Suc (ilog2 m)"
    by (simp add: mi)
  then have "(of_int (\<lfloor>\<bar>q\<bar>\<rfloor> + 1) :: rat) \<le> of_int (2 ^ Suc (ilog2 m))"
    by (simp only: of_int_le_iff)
  moreover have "\<bar>q\<bar> < of_int (\<lfloor>\<bar>q\<bar>\<rfloor> + 1)"
    using floor_correct [of "\<bar>q\<bar>"] by simp
  ultimately have "\<bar>q\<bar> < 2 ^ Suc (ilog2 m)"
    by simp
  then have hi: "\<bar>q\<bar> < pow2 (flog2 q + 1)"
    by (simp add: f pow2_Suc pow2_nat)
  from lo hi show ?thesis by simp
next
  case False
  define t where "t = 1 / \<bar>q\<bar>"
  have q0: "0 < \<bar>q\<bar>" using assms by simp
  have t1: "1 < t" using False q0 by (simp add: t_def)
  define k where "k = nat (\<lceil>t\<rceil> - 1)"
  have c2: "2 \<le> \<lceil>t\<rceil>" using t1 by (simp add: le_ceiling_iff)
  then have k0: "0 < k" and ki: "int k = \<lceil>t\<rceil> - 1" by (simp_all add: k_def)
  from ilog2_bounds [OF k0] have b: "2 ^ ilog2 k \<le> k" "k < 2 ^ Suc (ilog2 k)" by simp_all
  have f: "flog2 q = - (1 + int (ilog2 k))"
    using False assms by (simp add: flog2_def k_def t_def)
  have "int k + 1 \<le> 2 ^ Suc (ilog2 k)"
    using b(2) by (metis Suc_leI int_Suc of_nat_le_iff of_nat_numeral of_nat_power)
  then have "\<lceil>t\<rceil> \<le> 2 ^ Suc (ilog2 k)"
    by (simp add: ki)
  then have "(of_int \<lceil>t\<rceil> :: rat) \<le> of_int (2 ^ Suc (ilog2 k))"
    by (simp only: of_int_le_iff)
  then have "(of_int \<lceil>t\<rceil> :: rat) \<le> 2 ^ Suc (ilog2 k)"
    by simp
  then have tu: "t \<le> 2 ^ Suc (ilog2 k)"
    by (rule order_trans [OF le_of_int_ceiling])
  have "(2::int) ^ ilog2 k \<le> int k"
    using b(1) by (metis of_nat_le_iff of_nat_numeral of_nat_power)
  then have "(2::int) ^ ilog2 k \<le> \<lceil>t\<rceil> - 1" by (simp add: ki)
  then have "(of_int (2 ^ ilog2 k) :: rat) \<le> of_int (\<lceil>t\<rceil> - 1)"
    by (simp only: of_int_le_iff)
  moreover have "of_int (\<lceil>t\<rceil> - 1) < t"
    using ceiling_correct [of t] by simp
  ultimately have tl: "2 ^ ilog2 k < t" by simp
  have lo: "pow2 (flog2 q) \<le> \<bar>q\<bar>"
  proof -
    have "1 / 2 ^ Suc (ilog2 k) \<le> 1 / t"
      using tu t1 by (intro divide_left_mono) simp_all
    then show ?thesis
      using pow2_neg_nat [of "Suc (ilog2 k)"] by (simp add: f t_def add.commute)
  qed
  have hi: "\<bar>q\<bar> < pow2 (flog2 q + 1)"
  proof -
    have "0 < t" using t1 by simp
    then have "1 / t < 1 / 2 ^ ilog2 k"
      using tl by (intro divide_strict_left_mono) simp_all
    then show ?thesis
      using pow2_neg_nat [of "ilog2 k"] by (simp add: f t_def)
  qed
  from lo hi show ?thesis by simp
qed

lemma flog2_unique:
  assumes "pow2 k \<le> \<bar>q\<bar>" and "\<bar>q\<bar> < pow2 (k + 1)"
  shows "flog2 q = k"
proof -
  have q: "q \<noteq> 0" using assms(1) pow2_pos [of k] by auto
  from flog2_bounds [OF q] have b: "pow2 (flog2 q) \<le> \<bar>q\<bar>" "\<bar>q\<bar> < pow2 (flog2 q + 1)"
    by simp_all
  have "pow2 k < pow2 (flog2 q + 1)" using assms(1) b(2) by simp
  then have 1: "k < flog2 q + 1" by (simp add: pow2_less_iff)
  have "pow2 (flog2 q) < pow2 (k + 1)" using assms(2) b(1) by simp
  then have 2: "flog2 q < k + 1" by (simp add: pow2_less_iff)
  from 1 2 show ?thesis by simp
qed

lemma flog2_double:
  assumes "q \<noteq> 0"
  shows "flog2 (2 * q) = flog2 q + 1"
proof (rule flog2_unique)
  from flog2_bounds [OF assms] have b: "pow2 (flog2 q) \<le> \<bar>q\<bar>" "\<bar>q\<bar> < pow2 (flog2 q + 1)"
    by simp_all
  show "pow2 (flog2 q + 1) \<le> \<bar>2 * q\<bar>"
    using b(1) by (simp add: pow2_Suc abs_mult)
  have "pow2 (flog2 q + 1 + 1) = 2 * pow2 (flog2 q + 1)"
    by (rule pow2_Suc)
  then show "\<bar>2 * q\<bar> < pow2 (flog2 q + 1 + 1)"
    using b(2) by (simp add: abs_mult)
qed

lemma round_half_even_of_int: "round_half_even (of_int k) = k"
  by (simp add: round_half_even_def tie_even_def)

lemma range64_Fin: "range64 v = Fin q \<Longrightarrow> v = q"
  by (simp add: range64_def split: if_splits)

lemma range64_cases: "range64 v = Fin v \<or> range64 v = PInf \<or> range64 v = NInf"
  by (simp add: range64_def)

lemma round_to_exact:
  assumes "q = of_int n * pow2 e'" and "e \<le> e'"
  shows "round_to e q = q"
proof -
  have "pow2 e' = pow2 (e' - e) * pow2 e"
    using pow2_add [of "e' - e" e] by simp
  moreover have "pow2 (e' - e) = of_int (2 ^ nat (e' - e))"
    using assms(2) by (simp add: pow2_def)
  ultimately have "q / pow2 e = of_int (n * 2 ^ nat (e' - e))"
    using pow2_pos [of e] assms(1) by simp
  then have "round_half_even (q / pow2 e) = n * 2 ^ nat (e' - e)"
    by (simp only: round_half_even_of_int)
  then have "round_to e q = of_int (n * 2 ^ nat (e' - e)) * pow2 e"
    by (simp add: round_to_def)
  also have "\<dots> = q"
    using \<open>q / pow2 e = of_int (n * 2 ^ nat (e' - e))\<close> pow2_pos [of e]
    by (metis nonzero_divide_eq_eq less_irrefl)
  finally show ?thesis .
qed

lemma round64_Fin_grid:
  assumes "round64 q = Fin q"
  shows "q = of_int (round_half_even (q / pow2 (ulp_exp q))) * pow2 (ulp_exp q)"
  using range64_Fin [OF assms [unfolded round64_def]] by (simp add: round_to_def)

lemma ulp_exp_double: "q \<noteq> 0 \<Longrightarrow> ulp_exp (2 * q) \<le> ulp_exp q + 1"
  by (simp add: ulp_exp_def flog2_double max_def)

lemma round64_double:
  assumes "round64 q = Fin q"
  shows "round64 (q + q) = range64 (q + q)"
proof (cases "q = 0")
  case True
  then show ?thesis by (simp add: round64_0 range64_def)
next
  case False
  define n where "n = round_half_even (q / pow2 (ulp_exp q))"
  have g: "q = of_int n * pow2 (ulp_exp q)"
    unfolding n_def using assms by (rule round64_Fin_grid)
  have "2 * q = of_int n * pow2 (ulp_exp q + 1)"
    using g by (simp add: pow2_Suc)
  then have "round_to (ulp_exp (2 * q)) (2 * q) = 2 * q"
    using ulp_exp_double [OF False] by (rule round_to_exact)
  then show ?thesis
    by (simp add: round64_def mult_2 [symmetric])
qed

lemma round64_halve_double:
  assumes "round64 q = Fin q"
  shows "fdiv (fadd (Fin q) (Fin q)) (Fin 2) = Fin q \<or>
         fadd (Fin q) (Fin q) = PInf \<or> fadd (Fin q) (Fin q) = NInf"
proof -
  have a: "fadd (Fin q) (Fin q) = range64 (q + q)"
    using round64_double [OF assms] by (simp add: fadd_def)
  from range64_cases [of "q + q"] show ?thesis
  proof (elim disjE)
    assume "range64 (q + q) = Fin (q + q)"
    then have "fdiv (fadd (Fin q) (Fin q)) (Fin 2) = round64 ((q + q) / 2)"
      by (simp add: a fdiv_def)
    then show ?thesis using assms by simp
  qed (simp_all add: a)
qed

section \<open>Pixels whose samples are all equal\<close>

text \<open>
  When the samples of a pixel are all the same value, its deviation is NaN for every
  sample: the median is that value, or an infinity when the sum of the two middle samples
  overflows.
\<close>

lemma fsub_self: "fsub x x = Fin 0 \<or> fsub x x = NaN"
  by (cases x) (simp_all add: fsub_def fadd_def fneg_def round64_0)


lemma insort_key_replicate: "insort_key f x (replicate n x) = x # replicate n x"
  by (induction n) simp_all

lemma sort_key_replicate: "sort_key f (replicate n x) = replicate n x"
  by (induction n) (simp_all add: insort_key_replicate)

lemma np_median_replicate:
  assumes "0 < n"
  shows "np_median (replicate n x) =
         (if x = NaN then NaN else if odd n then x else fdiv (fadd x x) (Fin 2))"
proof -
  have h: "n div 2 < n" "n div 2 - 1 < n"
    using assms by simp_all
  show ?thesis
    using assms h by (simp add: np_median_def middle_def sort_key_replicate)
qed

lemma np_median_replicate_zero: "0 < n \<Longrightarrow> np_median (replicate n (Fin 0)) = Fin 0"
  by (simp add: np_median_replicate fadd_def fdiv_def round64_0)

lemma np_median_replicate_PInf: "0 < n \<Longrightarrow> np_median (replicate n PInf) = PInf"
  by (simp add: np_median_replicate fadd_def fdiv_def)

lemma np_median_replicate_cases:
  assumes "0 < n" and "is_f64 c"
  shows "np_median (replicate n c) = c \<or>
         (\<exists>q. c = Fin q) \<and> (np_median (replicate n c) = PInf \<or> np_median (replicate n c) = NInf)"
proof (cases c)
  case (Fin q)
  then have r: "round64 q = Fin q"
    using assms(2) by (simp add: is_f64_def)
  from round64_halve_double [OF r] show ?thesis
    using assms(1) Fin by (auto simp: np_median_replicate fdiv_def)
qed (use assms(1) in \<open>simp_all add: np_median_replicate fadd_def fdiv_def\<close>)

lemma constant_deviation_NaN:
  assumes "0 < n" and "is_f64 c"
  shows "fdiv (fsub c (RobustLocation (replicate n c))) (RobustScale (replicate n c)) = NaN"
proof -
  let ?med = "np_median (replicate n c)"
  let ?d = "fsub c ?med"
  have scale: "RobustScale (replicate n c) = fmul (np_median (replicate n (fabs ?d))) mad_factor"
    by (simp add: RobustScale_def RobustLocation_def)
  from np_median_replicate_cases [OF assms] show ?thesis
  proof (elim disjE conjE exE)
    assume m: "?med = c"
    from fsub_self [of c] show ?thesis
    proof
      assume d: "fsub c c = Fin 0"
      have "RobustScale (replicate n c) = Fin 0"
        using assms(1)
        by (simp add: scale m d fabs_def np_median_replicate_zero fmul_def mad_factor_value
            round64_0)
      then show ?thesis
        by (simp add: RobustLocation_def m d fdiv_def inf_of_sign_def)
    next
      assume "fsub c c = NaN"
      then show ?thesis
        by (simp add: RobustLocation_def m fdiv_def)
    qed
  next
    fix q assume c: "c = Fin q" and m: "?med = PInf"
    have d: "?d = NInf"
      using m by (simp add: c fsub_def fadd_def fneg_def)
    have "RobustScale (replicate n c) = PInf"
      using assms(1)
      by (simp add: scale d fabs_def np_median_replicate_PInf fmul_def mad_factor_value
          fsgn_def inf_of_sign_def)
    then show ?thesis
      by (simp add: RobustLocation_def d fdiv_def)
  next
    fix q assume c: "c = Fin q" and m: "?med = NInf"
    have d: "?d = PInf"
      using m by (simp add: c fsub_def fadd_def fneg_def)
    have "RobustScale (replicate n c) = PInf"
      using assms(1)
      by (simp add: scale d fabs_def np_median_replicate_PInf fmul_def mad_factor_value
          fsgn_def inf_of_sign_def)
    then show ?thesis
      by (simp add: RobustLocation_def d fdiv_def)
  qed
qed

lemma mask_fill_row_false:
  "length r = n \<Longrightarrow> map2 (\<lambda>b x. if b then v else x) (replicate n False) r = r"
  by (induction r arbitrary: n) auto

lemma exclude_length: "wf_array a \<Longrightarrow> length (exclude a) = length (rows a)"
  using exclude_shape [of a] by (simp add: list_all2_lengthD)

lemma exclude_row_length:
  "wf_array a \<Longrightarrow> i < length (rows a) \<Longrightarrow> length (exclude a ! i) = n_cols a"
  using exclude_shape [of a] by (simp add: list_all2_conv_all_nth wf_array_def list_all_length)

lemma column_mask_fill:
  assumes "wf_array a" and "j < n_cols a"
    and "\<And>i. i < length (rows a) \<Longrightarrow> \<not> exclude a ! i ! j"
  shows "column (a\<lparr>rows := mask_fill v (exclude a) (rows a)\<rparr>) j = column a j"
proof -
  have "(mask_fill v (exclude a) (rows a)) ! i ! j = rows a ! i ! j" if "i < length (rows a)" for i
  proof -
    have l: "length (rows a ! i) = n_cols a"
      using assms(1) that by (simp add: wf_array_def list_all_length)
    show ?thesis
      using that assms(2) assms(3) [OF that] l
      by (simp add: mask_fill_def exclude_length [OF assms(1)] exclude_row_length [OF assms(1)])
  qed
  then show ?thesis
    by (simp add: column_def list_eq_iff_nth_eq mask_fill_def exclude_length [OF assms(1)])
qed

lemma constant_pixel:
  assumes "wf_array bits" and "j < n_cols bits" and "rows bits \<noteq> []"
    and "column bits j = replicate (length (rows bits)) c" and "is_f64 c"
  shows "map (\<lambda>m. m ! j) (exclude bits) = replicate (length (rows bits)) False"
    and "snd (projr (clip_combine bits)) ! j =
         nanmean_col (n_cols bits = 1) (replicate (length (rows bits)) c)"
proof -
  have n: "0 < length (rows bits)"
    using assms(3) by simp
  have keep: "\<not> exclude bits ! i ! j" if "i < length (rows bits)" for i
  proof -
    have "rows bits ! i ! j = c"
      using column_nth [OF that, of j] that by (simp add: assms(4))
    then have "signed_deviation bits i j = NaN"
      using constant_deviation_NaN [OF n assms(5)] by (simp add: signed_deviation_def assms(4))
    then show ?thesis
      using exclude_nth [OF assms(1) that assms(2)] by (simp add: fgt_def)
  qed
  then show "map (\<lambda>m. m ! j) (exclude bits) = replicate (length (rows bits)) False"
    by (simp add: list_eq_iff_nth_eq exclude_length [OF assms(1)])
  have "column (bits\<lparr>rows := mask_fill NaN (exclude bits) (rows bits)\<rparr>) j = column bits j"
    using assms(1,2) keep by (rule column_mask_fill)
  then show "snd (projr (clip_combine bits)) ! j =
             nanmean_col (n_cols bits = 1) (replicate (length (rows bits)) c)"
    using assms(2) by (simp add: clip_combine_returns [OF assms(1)] nanmean_axis0_def assms(4))
qed

lemma clip_combine_copies:
  assumes "0 < n" and "list_all is_f64 img"
  shows "exclude (copies n img) = replicate n (replicate (length img) False)"
    and "clip_combine (copies n img) =
         Inr (copies n img, map (\<lambda>x. nanmean_col (length img = 1) (replicate n x)) img)"
proof -
  let ?b = "copies n img"
  have w: "wf_array ?b"
    by (simp add: wf_array_def copies_def list_all_length)
  have r: "rows ?b \<noteq> []" "length (rows ?b) = n" "n_cols ?b = length img"
    using assms(1) by (simp_all add: copies_def)
  have col: "column ?b j = replicate (length (rows ?b)) (img ! j)" for j
    by (simp add: column_def copies_def map_replicate_const)
  have f: "is_f64 (img ! j)" if "j < length img" for j
    using assms(2) that by (simp add: list_all_length)
  have e: "exclude ?b ! i ! j = False" if "i < n" "j < length img" for i j
  proof -
    have "map (\<lambda>m. m ! j) (exclude ?b) ! i = replicate (length (rows ?b)) False ! i"
      using constant_pixel(1) [OF w _ r(1) col f] that by (simp add: r)
    then show ?thesis
      using that by (simp add: exclude_length [OF w] r)
  qed
  have le: "length (exclude ?b) = n"
    using exclude_length [OF w] by (simp add: r(2))
  have lr: "length (exclude ?b ! i) = length img" if "i < n" for i
    using exclude_row_length [OF w, of i] that by (simp add: r(2,3))
  show "exclude ?b = replicate n (replicate (length img) False)"
  proof (rule nth_equalityI)
    show "length (exclude ?b) = length (replicate n (replicate (length img) False))"
      by (simp add: le)
  next
    fix i assume "i < length (exclude ?b)"
    then have i: "i < n" by (simp add: le)
    have "exclude ?b ! i = replicate (length img) False"
      by (rule nth_equalityI) (simp_all add: lr [OF i] e [OF i])
    then show "exclude ?b ! i = replicate n (replicate (length img) False) ! i"
      using i by simp
  qed
  have "snd (projr (clip_combine ?b)) ! j = nanmean_col (length img = 1) (replicate n (img ! j))"
    if "j < length img" for j
    using constant_pixel(2) [OF w _ r(1) col f] that by (simp add: r)
  moreover have "length (snd (projr (clip_combine ?b))) = length img"
    by (simp add: clip_combine_returns [OF w] nanmean_axis0_def r(3))
  ultimately have "snd (projr (clip_combine ?b)) =
                   map (\<lambda>x. nanmean_col (length img = 1) (replicate n x)) img"
    by (intro nth_equalityI) simp_all
  then show "clip_combine ?b =
             Inr (?b, map (\<lambda>x. nanmean_col (length img = 1) (replicate n x)) img)"
    by (simp add: clip_combine_returns [OF w])
qed

section \<open>A stack of one image\<close>

text \<open>
  With one sample the median is the sample and the deviation is NaN.
\<close>

lemma np_median_single: "np_median [x] = x"
  by (simp add: np_median_def middle_def)

lemma single_sample_not_excluded:
  "\<not> fgt (fdiv (fsub x (RobustLocation [x])) (RobustScale [x])) t"
proof -
  have m: "mad_factor \<noteq> NaN"
    by (simp add: mad_factor_value)
  from fsub_self [of x] show ?thesis
  proof
    assume d: "fsub x x = Fin 0"
    then have "RobustScale [x] = Fin 0"
      by (simp add: RobustScale_def RobustLocation_def np_median_single fabs_def fmul_def
          mad_factor_value round64_0)
    with d show ?thesis
      by (simp add: RobustLocation_def np_median_single fdiv_def inf_of_sign_def fgt_def)
  next
    assume "fsub x x = NaN"
    then show ?thesis
      by (simp add: RobustLocation_def np_median_single fdiv_def fgt_def)
  qed
qed

lemma nanmean_col_single: "is_f64 x \<Longrightarrow> nanmean_col one_column [x] = x"
  by (cases x)
     (simp_all add: nanmean_col_def np_sum_def pairwise_sum_short is_f64_def fadd_def fdiv_def
        round64_0 inf_of_sign_def)

lemma one_image_stack:
  assumes "rows bits = [r]" and "length r = n_cols bits" and "list_all is_f64 r"
  shows "exclude bits = [replicate (n_cols bits) False] \<and> clip_combine bits = Inr (bits, r)"
proof -
  have w: "wf_array bits"
    using assms by (simp add: wf_array_def)
  have col: "column bits j = [r ! j]" for j
    using assms(1) by (simp add: column_def)
  have sh: "list_all2 (\<lambda>m r. length m = length r) (exclude bits) (rows bits)"
    using w by (rule exclude_shape)
  then obtain m where m: "exclude bits = [m]" and lm: "length m = n_cols bits"
    using assms(1,2) by (auto simp: list_all2_Cons2)
  have "m ! j = False" if "j < n_cols bits" for j
  proof -
    have "exclude bits ! 0 ! j = fgt (signed_deviation bits 0 j) (Fin 10)"
      using w that assms(1) by (intro exclude_nth) simp_all
    then show ?thesis
      using single_sample_not_excluded [of "r ! j" "Fin 10"] assms(1)
      by (simp add: m signed_deviation_def col)
  qed
  then have mf: "m = replicate (n_cols bits) False"
    using lm by (simp add: list_eq_iff_nth_eq)
  have fill: "mask_fill NaN [replicate (n_cols bits) False] (rows bits) = [r]"
    using assms(1,2) by (simp add: mask_fill_def mask_fill_row_false)
  have "nanmean_axis0 (bits\<lparr>rows := [r]\<rparr>) = r"
    using assms(2,3)
    by (simp add: nanmean_axis0_def column_def nanmean_col_single list_eq_iff_nth_eq
        list_all_length)
  then show ?thesis
    using clip_combine_returns [OF w] by (simp add: fill m mf)
qed

section \<open>Rounding is monotone; a sample at or below the median is kept\<close>

text \<open>
  Rounding preserves order and sign and leaves a rounded number as it is. Hence the
  median is not below the lower middle sample, whose deviation is then not positive, and
  the robust scale is not negative: that sample is kept.
\<close>

lemma round_half_even_cases:
  "round_half_even x = \<lfloor>x\<rfloor> \<or> round_half_even x = \<lfloor>x\<rfloor> + 1"
  by (simp add: round_half_even_def tie_even_def)

lemma round_half_even_mono:
  assumes "x \<le> y"
  shows "round_half_even x \<le> round_half_even y"
proof (cases "\<lfloor>x\<rfloor> = \<lfloor>y\<rfloor>")
  case True
  have "x - of_int \<lfloor>x\<rfloor> \<le> y - of_int \<lfloor>x\<rfloor>"
    using assms by simp
  then show ?thesis
    by (simp add: round_half_even_def tie_even_def True [symmetric])
next
  case False
  then have "\<lfloor>x\<rfloor> < \<lfloor>y\<rfloor>"
    using floor_mono [OF assms] by simp
  then have "\<lfloor>x\<rfloor> + 1 \<le> \<lfloor>y\<rfloor>" by simp
  moreover have "round_half_even x \<le> \<lfloor>x\<rfloor> + 1"
    using round_half_even_cases [of x] by auto
  moreover have "\<lfloor>y\<rfloor> \<le> round_half_even y"
    using round_half_even_cases [of y] by auto
  ultimately show ?thesis by simp
qed

lemma round_half_even_minus: "round_half_even (- x) = - round_half_even x"
proof (cases "x = of_int \<lfloor>x\<rfloor>")
  case True
  then obtain k where "x = of_int k" ..
  then show ?thesis
    using round_half_even_of_int [of k] round_half_even_of_int [of "- k"] by simp
next
  case False
  then have "of_int \<lfloor>x\<rfloor> < x"
    using of_int_floor_le [of x] by linarith
  then have f: "\<lfloor>- x\<rfloor> = - \<lfloor>x\<rfloor> - 1"
    by (intro floor_unique) (simp_all add: algebra_simps, linarith)
  show ?thesis
    using \<open>of_int \<lfloor>x\<rfloor> < x\<close>
    by (auto simp: round_half_even_def tie_even_def f algebra_simps)
qed

lemma round_to_mono: "q \<le> r \<Longrightarrow> round_to e q \<le> round_to e r"
proof -
  assume "q \<le> r"
  then have "q / pow2 e \<le> r / pow2 e"
    using pow2_pos [of e] by (simp add: divide_right_mono)
  then have "round_half_even (q / pow2 e) \<le> round_half_even (r / pow2 e)"
    by (rule round_half_even_mono)
  then have "(of_int (round_half_even (q / pow2 e)) :: rat) \<le> of_int (round_half_even (r / pow2 e))"
    by simp
  then show ?thesis
    unfolding round_to_def using pow2_pos [of e] by (simp add: mult_right_mono)
qed

lemma round_to_minus: "round_to e (- q) = - round_to e q"
  by (simp add: round_to_def round_half_even_minus)

lemma round_to_0: "round_to e 0 = 0"
  using round_half_even_of_int [of 0] by (simp add: round_to_def)

lemma flog2_minus: "flog2 (- q) = flog2 q"
  by (simp add: flog2_def)










lemma round64_val: "round64 q = range64 (round_val q)"
  by (simp add: round64_def round_val_def)





















lemma round64_not_NaN: "round64 q \<noteq> NaN"
  by (simp add: round64_def range64_def)

lemma flog2_pow2: "flog2 (pow2 k) = k"
  using pow2_pos [of k] by (intro flog2_unique) (simp_all add: pow2_less_iff)

lemma round_val_idem:
  "round_val (round_val q) = round_val q"
proof -
  define e where "e = ulp_exp q"
  define v where "v = round_val q"
  define n where "n = round_half_even (q / pow2 e)"
  define B where "B = pow2 (e + 53)"
  have vg: "v = of_int n * pow2 e"
    by (simp add: v_def round_val_def round_to_def e_def n_def)
  have e_lo: "- 1074 \<le> e" and e_F: "flog2 q - 52 \<le> e"
    by (simp_all add: e_def ulp_exp_def)
  have Bg: "B = of_int (2 ^ 53) * pow2 e"
    using pow2_add [of 53 e] by (simp add: B_def pow2_def add.commute)
  have BB: "round_to e B = B"
    using Bg by (rule round_to_exact) simp
  have qB: "\<bar>q\<bar> \<le> B"
  proof (cases "q = 0")
    case True
    then show ?thesis using pow2_pos [of "e + 53"] by (simp add: B_def)
  next
    case False
    have "pow2 (flog2 q + 1) \<le> B"
      using e_F by (simp add: B_def pow2_le_iff)
    then show ?thesis
      using flog2_bounds [OF False] by simp
  qed
  have "round_to e q \<le> round_to e B"
    using qB by (intro round_to_mono) simp
  moreover have "round_to e (- B) \<le> round_to e q"
    using qB by (intro round_to_mono) simp
  ultimately have vB: "\<bar>v\<bar> \<le> B"
    by (simp add: v_def round_val_def e_def [symmetric] BB round_to_minus abs_le_iff)
  have "round_to (ulp_exp v) v = v"
  proof (cases "\<bar>v\<bar> = B")
    case True
    then have c: "v = of_int 1 * pow2 (e + 53) \<or> v = of_int (- 1) * pow2 (e + 53)"
      by (auto simp: B_def abs_if split: if_splits)
    have "flog2 v = e + 53"
      using True flog2_pow2 [of "e + 53"] flog2_minus [of v]
      by (auto simp: B_def abs_if split: if_splits)
    then have u: "ulp_exp v \<le> e + 53"
      using e_lo by (simp add: ulp_exp_def)
    from c show ?thesis
    proof
      assume "v = of_int 1 * pow2 (e + 53)"
      then show ?thesis using u by (rule round_to_exact)
    next
      assume "v = of_int (- 1) * pow2 (e + 53)"
      then show ?thesis using u by (rule round_to_exact)
    qed
  next
    case False
    show ?thesis
    proof (cases "v = 0")
      case True
      then show ?thesis by (simp add: round_to_0)
    next
      case v0: False
      have "pow2 (flog2 v) \<le> \<bar>v\<bar>"
        using flog2_bounds [OF v0] by simp
      also have "\<bar>v\<bar> < B" using vB False by simp
      finally have "flog2 v < e + 53"
        by (simp add: B_def pow2_less_iff)
      then have "ulp_exp v \<le> e"
        using e_lo by (simp add: ulp_exp_def)
      with vg show ?thesis by (rule round_to_exact)
    qed
  qed
  then have "round_val v = v"
    by (simp add: round_val_def)
  then show ?thesis
    by (simp add: v_def)
qed

lemma round64_is_f64: "is_f64 (round64 q)"
proof (cases "round64 q")
  case (Fin v)
  then have r: "range64 (round_val q) = Fin v"
    by (simp add: round64_val)
  then have v: "round_val q = v"
    by (rule range64_Fin)
  have "round64 v = range64 (round_val (round_val q))"
    by (simp add: round64_val v)
  also have "\<dots> = Fin v"
    by (simp add: round_val_idem r)
  finally show ?thesis
    by (simp add: Fin is_f64_def)
qed (simp_all add: is_f64_def)

lemma fdiv_is_f64: "is_f64 (fdiv x y)"
  by (cases x; cases y)
     (simp_all add: fdiv_def round64_is_f64 inf_of_sign_def fneg_def,
      simp_all add: is_f64_def round64_0)

lemma clip_combine_is_f64:
  assumes "wf_array bits"
  shows "list_all is_f64 (snd (projr (clip_combine bits)))"
  by (simp add: clip_combine_returns [OF assms] nanmean_axis0_def list_all_iff nanmean_col_def
      fdiv_is_f64)

lemma clip_combine_length:
  "wf_array bits \<Longrightarrow> length (snd (projr (clip_combine bits))) = n_cols bits"
  by (simp add: clip_combine_returns nanmean_axis0_def)

section \<open>The median by ranks\<close>

text \<open>
  Sorting keeps the number of samples that satisfy a condition, and in a sorted list no
  smaller sample follows position k and no greater one precedes it. Hence the sample that
  \<^verbatim>\<open>np.median\<close> finds at position k of the sorted samples has rank k, and the result of
  \<^verbatim>\<open>np.median\<close> is the median of the samples.
\<close>

lemma length_filter_insort_key:
  "length (filter P (insort_key f x xs)) = length (filter P (x # xs))"
  by (induction xs) simp_all

lemma length_filter_sort_key: "length (filter P (sort_key f xs)) = length (filter P xs)"
  by (induction xs) (simp_all add: length_filter_insort_key)

lemma fgt_fkey: "x \<noteq> NaN \<Longrightarrow> y \<noteq> NaN \<Longrightarrow> fgt x y = (fkey y < fkey x)"
  by (simp add: fgt_def)

lemma sorted_none_smaller_after:
  assumes "sorted (map f s)" and "k < length s"
  shows "filter (\<lambda>x. f x < f (s ! k)) (drop k s) = []"
proof -
  have "\<not> f x < f (s ! k)" if "x \<in> set (drop k s)" for x
  proof -
    from that obtain i where i: "i < length s - k" and x: "x = s ! (k + i)"
      by (auto simp: in_set_conv_nth)
    have "map f s ! k \<le> map f s ! (k + i)"
      using assms(1) i by (intro sorted_nth_mono) simp_all
    then show ?thesis
      using i assms(2) by (simp add: x not_less)
  qed
  then show ?thesis
    by (simp add: filter_empty_conv)
qed

lemma sorted_none_greater_before:
  assumes "sorted (map f s)" and "k < length s"
  shows "filter (\<lambda>x. f (s ! k) < f x) (take (Suc k) s) = []"
proof -
  have "\<not> f (s ! k) < f x" if "x \<in> set (take (Suc k) s)" for x
  proof -
    from that obtain i where i: "i < Suc k" and x: "x = s ! i"
      using assms(2) by (auto simp: in_set_conv_nth)
    have "map f s ! i \<le> map f s ! k"
      using assms i by (intro sorted_nth_mono) simp_all
    then show ?thesis
      using i assms(2) by (simp add: x not_less)
  qed
  then show ?thesis
    by (simp add: filter_empty_conv)
qed

lemma sorted_rank:
  assumes "sorted (map f s)" and "k < length s"
  shows "length (filter (\<lambda>x. f x < f (s ! k)) s) \<le> k"
    and "length (filter (\<lambda>x. f (s ! k) < f x) s) \<le> length s - Suc k"
proof -
  have "filter (\<lambda>x. f x < f (s ! k)) s =
        filter (\<lambda>x. f x < f (s ! k)) (take k s) @ filter (\<lambda>x. f x < f (s ! k)) (drop k s)"
    by (simp flip: filter_append)
  then have "length (filter (\<lambda>x. f x < f (s ! k)) s) = length (filter (\<lambda>x. f x < f (s ! k)) (take k s))"
    by (simp add: sorted_none_smaller_after [OF assms])
  also have "\<dots> \<le> length (take k s)"
    by (rule length_filter_le)
  finally show "length (filter (\<lambda>x. f x < f (s ! k)) s) \<le> k"
    by simp
  have "filter (\<lambda>x. f (s ! k) < f x) s =
        filter (\<lambda>x. f (s ! k) < f x) (take (Suc k) s) @ filter (\<lambda>x. f (s ! k) < f x) (drop (Suc k) s)"
    by (simp flip: filter_append)
  then have "length (filter (\<lambda>x. f (s ! k) < f x) s) =
             length (filter (\<lambda>x. f (s ! k) < f x) (drop (Suc k) s))"
    by (simp add: sorted_none_greater_before [OF assms])
  also have "\<dots> \<le> length (drop (Suc k) s)"
    by (rule length_filter_le)
  finally show "length (filter (\<lambda>x. f (s ! k) < f x) s) \<le> length s - Suc k"
    by simp
qed

lemma filter_fgt_fkey:
  assumes "NaN \<notin> set xs" and "v \<noteq> NaN"
  shows "filter (\<lambda>x. fgt v x) xs = filter (\<lambda>x. fkey x < fkey v) xs"
    and "filter (\<lambda>x. fgt x v) xs = filter (\<lambda>x. fkey v < fkey x) xs"
  using assms by (auto intro!: filter_cong simp: fgt_def)

lemma sort_key_nth_is_order_statistic:
  assumes "NaN \<notin> set xs" and "k < length xs"
  shows "is_order_statistic k (sort_key fkey xs ! k) xs"
proof -
  let ?s = "sort_key fkey xs"
  let ?v = "?s ! k"
  have k: "k < length ?s"
    using assms(2) by simp
  have srt: "sorted (map fkey ?s)"
    by (rule sorted_sort_key)
  have mem: "?v \<in> set xs"
    using nth_mem [OF k] by simp
  then have v: "?v \<noteq> NaN"
    using assms(1) by auto
  have "length (filter (\<lambda>x. fkey x < fkey ?v) xs) = length (filter (\<lambda>x. fkey x < fkey ?v) ?s)"
    by (simp add: length_filter_sort_key)
  also have "\<dots> \<le> k"
    using srt k by (rule sorted_rank(1))
  finally have lo: "length (filter (\<lambda>x. fgt ?v x) xs) \<le> k"
    by (simp add: filter_fgt_fkey(1) [OF assms(1) v])
  have "length (filter (\<lambda>x. fkey ?v < fkey x) xs) = length (filter (\<lambda>x. fkey ?v < fkey x) ?s)"
    by (simp add: length_filter_sort_key)
  also have "\<dots> \<le> length ?s - Suc k"
    using srt k by (rule sorted_rank(2))
  finally have hi: "length (filter (\<lambda>x. fgt x ?v) xs) \<le> length xs - Suc k"
    by (simp add: filter_fgt_fkey(2) [OF assms(1) v])
  show ?thesis
    using assms(2) mem lo hi by (simp add: is_order_statistic_def)
qed

lemma np_median_is_median:
  assumes "xs \<noteq> []" and "NaN \<notin> set xs"
  shows "is_median (np_median xs) xs"
proof -
  let ?s = "sort_key fkey xs"
  let ?n = "length xs"
  have n0: "0 < ?n" using assms(1) by simp
  have med: "np_median xs = middle ?s"
    using assms by (simp add: np_median_def)
  show ?thesis
  proof (cases "odd ?n")
    case True
    have "is_order_statistic (?n div 2) (?s ! (?n div 2)) xs"
      using assms(2) n0 by (intro sort_key_nth_is_order_statistic) simp_all
    then show ?thesis
      using True by (simp add: is_median_def med middle_def)
  next
    case False
    let ?a = "?s ! (?n div 2 - 1)" and ?b = "?s ! (?n div 2)"
    have ia: "?n div 2 - 1 < ?n" and ib: "?n div 2 < ?n"
      using n0 by (simp_all add: less_imp_diff_less)
    have a: "is_order_statistic (?n div 2 - 1) ?a xs"
      using assms(2) ia by (rule sort_key_nth_is_order_statistic)
    have b: "is_order_statistic (?n div 2) ?b xs"
      using assms(2) ib by (rule sort_key_nth_is_order_statistic)
    have "?a \<in> set xs" "?b \<in> set xs"
      using a b by (simp_all add: is_order_statistic_def)
    then show ?thesis
      using False a b by (auto simp: is_median_def med middle_def list_ex_iff)
  qed
qed

text \<open>The ranks determine the median: no two values are the median of the same samples.\<close>

lemma length_filter_mono:
  "(\<And>x. x \<in> set xs \<Longrightarrow> P x \<Longrightarrow> Q x) \<Longrightarrow> length (filter P xs) \<le> length (filter Q xs)"
  by (induction xs) auto

lemma fkey_inject: "fkey x = fkey y \<Longrightarrow> x = y"
  by (cases x; cases y) (simp_all add: fkey_def)

lemma order_statistic_not_below:
  assumes "NaN \<notin> set xs" and "is_order_statistic k v xs" and "is_order_statistic k w xs"
  shows "\<not> fkey v < fkey w"
proof
  assume less: "fkey v < fkey w"
  have v: "v \<in> set xs" and w: "w \<in> set xs"
    and hi: "length (filter (\<lambda>x. fgt x v) xs) \<le> length xs - Suc k"
    and lo: "length (filter (\<lambda>x. fgt w x) xs) \<le> k"
    and k: "k < length xs"
    using assms(2,3) by (simp_all add: is_order_statistic_def)
  have nn: "v \<noteq> NaN" "w \<noteq> NaN"
    using v w assms(1) by auto
  have "length (filter (\<lambda>x. fgt x v) xs) + length (filter (\<lambda>x. \<not> fgt x v) xs) = length xs"
    by (rule sum_length_filter_compl)
  then have "Suc k \<le> length (filter (\<lambda>x. \<not> fgt x v) xs)"
    using hi k by simp
  also have "\<dots> \<le> length (filter (\<lambda>x. fgt w x) xs)"
  proof (rule length_filter_mono)
    fix x assume "x \<in> set xs" and "\<not> fgt x v"
    then have "x \<noteq> NaN" and "\<not> fkey v < fkey x"
      using assms(1) nn by (auto simp: fgt_def)
    then show "fgt w x"
      using less nn by (simp add: fgt_def)
  qed
  finally show False
    using lo by simp
qed

lemma order_statistic_unique:
  assumes "NaN \<notin> set xs" and "is_order_statistic k v xs" and "is_order_statistic k w xs"
  shows "v = w"
proof -
  have "\<not> fkey v < fkey w" and "\<not> fkey w < fkey v"
    using assms by (simp_all add: order_statistic_not_below)
  then have "fkey v = fkey w"
    by simp
  then show ?thesis
    by (rule fkey_inject)
qed

lemma is_median_unique:
  assumes "NaN \<notin> set xs" and "is_median m xs" and "is_median m' xs"
  shows "m = m'"
proof (cases "odd (length xs)")
  case True
  then show ?thesis
    using assms by (simp add: is_median_def order_statistic_unique)
next
  case False
  from assms(2) False obtain a b
    where a: "is_order_statistic (length xs div 2 - 1) a xs"
      and b: "is_order_statistic (length xs div 2) b xs"
      and m: "m = fdiv (fadd a b) (Fin 2)"
    by (auto simp: is_median_def list_ex_iff)
  from assms(3) False obtain a' b'
    where a': "is_order_statistic (length xs div 2 - 1) a' xs"
      and b': "is_order_statistic (length xs div 2) b' xs"
      and m': "m' = fdiv (fadd a' b') (Fin 2)"
    by (auto simp: is_median_def list_ex_iff)
  have "a = a'" "b = b'"
    using assms(1) a a' b b' by (simp_all add: order_statistic_unique)
  then show ?thesis
    by (simp add: m m')
qed

section \<open>The scale of a pixel\<close>

text \<open>
  For finite samples neither the median nor a deviation from it is NaN, so both medians
  that \<^verbatim>\<open>mad_std\<close> takes are medians by rank, and its result is the second one scaled by
  the binary64 number 1.482602218505602.
\<close>

lemma finite_not_NaN: "list_all is_finite xs \<Longrightarrow> NaN \<notin> set xs"
  by (auto simp: list_all_iff is_finite_def)

lemma fadd_finite_not_NaN: "is_finite a \<Longrightarrow> is_finite b \<Longrightarrow> fadd a b \<noteq> NaN"
  by (cases a; cases b) (simp_all add: is_finite_def fadd_def round64_not_NaN)

lemma fdiv_two_not_NaN: "x \<noteq> NaN \<Longrightarrow> fdiv x (Fin 2) \<noteq> NaN"
  by (cases x) (simp_all add: fdiv_def round64_not_NaN)

lemma np_median_finite_not_NaN:
  assumes "xs \<noteq> []" and "list_all is_finite xs"
  shows "np_median xs \<noteq> NaN"
proof -
  let ?s = "sort_key fkey xs"
  have fin: "is_finite (?s ! i)" if "i < length xs" for i
  proof -
    have "?s ! i \<in> set ?s"
      using that by (intro nth_mem) simp
    then show ?thesis
      using assms(2) by (simp add: list_all_iff)
  qed
  have n0: "0 < length xs" using assms(1) by simp
  then have h: "length xs div 2 < length xs" "length xs div 2 - 1 < length xs"
    by (simp_all add: less_imp_diff_less)
  have "middle ?s \<noteq> NaN"
    using fin [OF h(1)] fin [OF h(2)]
    by (auto simp: middle_def is_finite_def fadd_finite_not_NaN fdiv_two_not_NaN)
  then show ?thesis
    using assms finite_not_NaN [OF assms(2)] by (simp add: np_median_def)
qed

lemma deviation_not_NaN: "is_finite x \<Longrightarrow> m \<noteq> NaN \<Longrightarrow> fabs (fsub x m) \<noteq> NaN"
  by (cases x; cases m)
     (simp_all add: is_finite_def fabs_def fsub_def fadd_def fneg_def round64_def range64_def)

lemma median_absolute_deviation_nth:
  assumes "wf_array a" and "j < n_cols a"
  shows "median_absolute_deviation a ! j =
         np_median (map (\<lambda>x. fabs (fsub x (np_median_axis0 a ! j))) (column a j))"
proof -
  let ?dm = "np_median_axis0 a"
  let ?a' = "a\<lparr>rows := map (\<lambda>r. map2 (\<lambda>x m. fabs (fsub x m)) r ?dm) (rows a)\<rparr>"
  have c: "column ?a' j = map (\<lambda>x. fabs (fsub x (?dm ! j))) (column a j)"
    using assms by (intro column_map2) (simp_all add: np_median_axis0_length)
  have "median_absolute_deviation a ! j = np_median (column ?a' j)"
    using assms(2) by (simp add: median_absolute_deviation_def Let_def np_median_axis0_def)
  then show ?thesis
    by (simp add: c)
qed

lemma median_absolute_deviation_length: "length (median_absolute_deviation a) = n_cols a"
  by (simp add: median_absolute_deviation_def Let_def np_median_axis0_def)

lemma fmul_mad_factor: "fmul d mad_factor = scaled_by (1669261699700125 / 1125899906842624) d"
  by (cases d)
     (simp_all add: fmul_def mad_factor_value scaled_by_def fsgn_def inf_of_sign_def
        mult.commute)

lemma mad_std_is_scaled_median:
  assumes "wf_array bits" and "j < n_cols bits" and "rows bits \<noteq> []"
    and "list_all is_finite (column bits j)"
  shows "is_median (np_median_axis0 bits ! j) (column bits j)"
    and "is_median (median_absolute_deviation bits ! j)
           (map (\<lambda>x. fabs (fsub x (np_median_axis0 bits ! j))) (column bits j))"
    and "mad_std bits ! j =
           scaled_by (1669261699700125 / 1125899906842624) (median_absolute_deviation bits ! j)"
proof -
  let ?col = "column bits j"
  let ?m = "np_median_axis0 bits ! j"
  let ?devs = "map (\<lambda>x. fabs (fsub x ?m)) ?col"
  have ne: "?col \<noteq> []"
    using assms(3) by (simp add: column_def)
  have nn: "NaN \<notin> set ?col"
    using assms(4) by (rule finite_not_NaN)
  have m: "?m = np_median ?col"
    using assms(2) by (rule np_median_axis0_nth)
  show "is_median ?m ?col"
    unfolding m using ne nn by (rule np_median_is_median)
  have mn: "?m \<noteq> NaN"
    unfolding m using ne assms(4) by (rule np_median_finite_not_NaN)
  have "fabs (fsub x ?m) \<noteq> NaN" if "x \<in> set ?col" for x
    using assms(4) that mn by (intro deviation_not_NaN) (simp_all add: list_all_iff)
  then have dn: "NaN \<notin> set ?devs"
    by (metis (mono_tags, lifting) imageE list.set_map)
  have d: "median_absolute_deviation bits ! j = np_median ?devs"
    using assms(1,2) by (rule median_absolute_deviation_nth)
  show "is_median (median_absolute_deviation bits ! j) ?devs"
    unfolding d using ne dn by (intro np_median_is_median) simp_all
  show "mad_std bits ! j =
        scaled_by (1669261699700125 / 1125899906842624) (median_absolute_deviation bits ! j)"
    using assms(2)
    by (simp add: mad_std_def median_absolute_deviation_length fmul_mad_factor)
qed

section \<open>Evaluations on the example stacks\<close>

lemmas spec_eval = RobustLocation_def RobustScale_def signed_deviation_def spec_rejected_def

lemma tenth_is_f64: "is_f64 tenth"
  by (simp add: tenth_def is_f64_def round64_eval)

lemma nine_tenths_is_f64: "is_f64 nine_tenths"
  by (simp add: nine_tenths_def is_f64_def round64_eval)

text \<open>
  In a stack of one pixel the eight samples 0.1 are summed pairwise, to 0.8, and combine to
  0.1. In a stack of two pixels the rows are added one after another, and the eight
  samples of each pixel combine to 0.09999999999999999.
\<close>

lemma nanmean_col_eight_tenths:
  "nanmean_col True (replicate 8 tenth) = tenth"
  "nanmean_col False (replicate 8 tenth) = Fin (7205759403792793 / 72057594037927936)"
  by (simp_all add: tenth_def replicate_eval nanmean_col_def sum_eval float_eval round64_eval)

lemma combined_image_eight_tenths:
  "combined_image eight_tenths_stack = [tenth]"
  "combined_image eight_tenths_pairs_stack =
     [Fin (7205759403792793 / 72057594037927936), Fin (7205759403792793 / 72057594037927936)]"
proof -
  have f: "list_all is_f64 [tenth]" "list_all is_f64 [tenth, tenth]"
    by (simp_all add: tenth_is_f64)
  show "combined_image eight_tenths_stack = [tenth]"
    unfolding eight_tenths_stack_def combined_image_def
    using clip_combine_copies(2) [OF _ f(1), of 8] nanmean_col_eight_tenths(1) by simp
  show "combined_image eight_tenths_pairs_stack =
          [Fin (7205759403792793 / 72057594037927936), Fin (7205759403792793 / 72057594037927936)]"
    unfolding eight_tenths_pairs_stack_def combined_image_def
    using clip_combine_copies(2) [OF _ f(2), of 8] nanmean_col_eight_tenths(2) by simp
qed

text \<open>The mean of equal samples, none of them NaN: their sum divided by their number.\<close>

lemma nanmean_col_replicate:
  "c \<noteq> NaN \<Longrightarrow>
   nanmean_col one_column (replicate n c) =
     fdiv (np_sum one_column (replicate n c)) (Fin (of_nat n))"
  by (simp add: nanmean_col_def)

text \<open>The five samples 0, 1, 2, 3, 100: their median is 2, the median deviation is 1.\<close>

lemma medians_high_outlier_stack:
  "column high_outlier_stack 0 = [Fin 0, Fin 1, Fin 2, Fin 3, Fin 100]"
  "np_median_axis0 high_outlier_stack = [Fin 2]"
  "median_absolute_deviation high_outlier_stack = [Fin 1]"
  "mad_std high_outlier_stack = [Fin (1669261699700125 / 1125899906842624)]"
  by (simp_all add: high_outlier_stack_def array_eval float_eval round64_eval mad_factor_value)

lemma is_median_high_outlier_stack:
  "is_median (Fin 2) [Fin 0, Fin 1, Fin 2, Fin 3, Fin 100]"
  "is_median (Fin 1) [Fin 2, Fin 1, Fin 0, Fin 1, Fin 98]"
  by (simp_all add: is_median_def is_order_statistic_def fgt_def fkey_def)

text \<open>A sample far above the median is rejected; its mirror image far below is kept.\<close>

lemma exclude_high_outlier_stack:
  "exclude high_outlier_stack = [[False], [False], [False], [False], [True]]"
  by (simp add: high_outlier_stack_def array_eval float_eval round64_eval mad_factor_value)

lemma exclude_low_outlier_stack:
  "exclude low_outlier_stack = [[False], [False], [False], [False], [False]]"
  by (simp add: low_outlier_stack_def array_eval float_eval round64_eval mad_factor_value)

text \<open>
  With a median absolute deviation of zero, a sample above the median has the deviation
  plus infinity and is rejected.
\<close>

lemma zero_mad_high_sample_rejected:
  "mad_std zero_mad_high_stack = [Fin 0] \<and>
   signed_deviation zero_mad_high_stack 3 0 = PInf \<and>
   exclude zero_mad_high_stack = [[False], [False], [False], [True]]"
proof -
  have m: "mad_std zero_mad_high_stack = [Fin 0]"
    by (simp add: zero_mad_high_stack_def array_eval float_eval round64_eval mad_factor_value)
  have d: "signed_deviation zero_mad_high_stack 3 0 = PInf"
    by (simp add: zero_mad_high_stack_def spec_eval array_eval float_eval round64_eval
        mad_factor_value)
  have e: "exclude zero_mad_high_stack = [[False], [False], [False], [True]]"
    by (simp add: zero_mad_high_stack_def array_eval float_eval round64_eval mad_factor_value)
  show ?thesis
    using m d e by simp
qed

section \<open>Claims\<close>

text \<open>
  C1 (as the code has it). The cell has no threshold parameters: the threshold is the
  constant 10. Unless the signed deviation of a sample is below -10, the sample is
  rejected exactly when its signed deviation exceeds 10.
\<close>

theorem exclude_above_ten:
  assumes "wf_array bits" and "i < length (rows bits)" and "j < n_cols bits"
  shows "fgt (Fin (- 10)) (signed_deviation bits i j) \<or>
         exclude bits ! i ! j = fgt (signed_deviation bits i j) (Fin 10)"
  using assms by (simp add: exclude_nth)

theorem exclude_above_ten_witness:
  "wf_array high_outlier_stack \<and> 4 < length (rows high_outlier_stack) \<and>
   0 < n_cols high_outlier_stack \<and>
   (fgt (Fin (- 10)) (signed_deviation high_outlier_stack 4 0) \<or>
    exclude high_outlier_stack ! 4 ! 0 =
      fgt (signed_deviation high_outlier_stack 4 0) (Fin 10))"
proof -
  have w: "wf_array high_outlier_stack"
    by (simp add: wf_array_def high_outlier_stack_def)
  have i: "4 < length (rows high_outlier_stack)"
    by (simp add: high_outlier_stack_def)
  have j: "0 < n_cols high_outlier_stack"
    by (simp add: high_outlier_stack_def)
  show ?thesis
    using w i j exclude_above_ten [OF w i j] by simp
qed

text \<open>
  C1 as stated fails: with thresholds (5, 5) the last sample of the stack 0, 1, 2, 3, 12,
  about 6.7 robust sigmas above the median, would be rejected; the cell keeps it.
\<close>

theorem threshold_five_not_applied:
  "spec_rejected (Fin 5) (Fin 5) (signed_deviation mild_outlier_stack 4 0) \<and>
   \<not> exclude mild_outlier_stack ! 4 ! 0"
proof -
  have d: "signed_deviation mild_outlier_stack 4 0 =
           Fin (7594079469120731 / 1125899906842624)"
    by (simp add: mild_outlier_stack_def spec_eval array_eval float_eval round64_eval
        mad_factor_value)
  have e: "exclude mild_outlier_stack = [[False], [False], [False], [False], [False]]"
    by (simp add: mild_outlier_stack_def array_eval float_eval round64_eval mad_factor_value)
  show ?thesis
    by (simp add: d e spec_rejected_def fgt_def fkey_def)
qed



text \<open>
  C3 (as the code has it). At a pixel where all N samples are the same binary64 value,
  not NaN, no sample is rejected, and the combined value is the sum of the N samples, as
  numpy adds them and rounds each sum to binary64, divided by N.
\<close>

theorem constant_pixel_kept:
  assumes "wf_array bits" and "j < n_cols bits" and "rows bits \<noteq> []"
    and "column bits j = replicate (length (rows bits)) c" and "is_f64 c" and "c \<noteq> NaN"
  shows "map (\<lambda>m. m ! j) (exclude bits) = replicate (length (rows bits)) False \<and>
         combined_image bits ! j =
           fdiv (np_sum (n_cols bits = 1) (replicate (length (rows bits)) c))
                (Fin (of_nat (length (rows bits))))"
  using constant_pixel [OF assms(1-5)] assms(6)
  by (simp add: combined_image_def nanmean_col_replicate)

theorem constant_pixel_kept_witness:
  "wf_array tenth_stack \<and> 0 < n_cols tenth_stack \<and> rows tenth_stack \<noteq> [] \<and>
   column tenth_stack 0 = replicate (length (rows tenth_stack)) tenth \<and> is_f64 tenth \<and>
   tenth \<noteq> NaN \<and>
   map (\<lambda>m. m ! 0) (exclude tenth_stack) = replicate (length (rows tenth_stack)) False \<and>
   combined_image tenth_stack ! 0 =
     fdiv (np_sum (n_cols tenth_stack = 1) (replicate (length (rows tenth_stack)) tenth))
          (Fin (of_nat (length (rows tenth_stack))))"
proof -
  have w: "wf_array tenth_stack"
    by (simp add: wf_array_def tenth_stack_def copies_def replicate_eval)
  have j: "0 < n_cols tenth_stack"
    by (simp add: tenth_stack_def copies_def)
  have r: "rows tenth_stack \<noteq> []"
    by (simp add: tenth_stack_def copies_def)
  have c: "column tenth_stack 0 = replicate (length (rows tenth_stack)) tenth"
    by (simp add: tenth_stack_def copies_def column_def)
  have n: "tenth \<noteq> NaN"
    by (simp add: tenth_def)
  show ?thesis
    using w j r c tenth_is_f64 n constant_pixel_kept [OF w j r c tenth_is_f64 n] by simp
qed

text \<open>
  C3 as stated fails: three samples 0.1 are all kept, and their combined value is
  0.10000000000000002, the next binary64 number after 0.1.
\<close>

theorem tenth_stack_mean_differs:
  "column tenth_stack 0 = [tenth, tenth, tenth] \<and>
   exclude tenth_stack = [[False], [False], [False]] \<and>
   combined_image tenth_stack = [Fin (7205759403792795 / 72057594037927936)] \<and>
   combined_image tenth_stack ! 0 \<noteq> tenth"
proof -
  have f: "list_all is_f64 [tenth]"
    by (simp add: tenth_is_f64)
  have m: "nanmean_col True (replicate 3 tenth) = Fin (7205759403792795 / 72057594037927936)"
    by (simp add: tenth_def replicate_eval nanmean_col_def sum_eval float_eval round64_eval)
  have c: "combined_image tenth_stack = [Fin (7205759403792795 / 72057594037927936)]"
    unfolding tenth_stack_def combined_image_def
    using clip_combine_copies(2) [OF _ f, of 3] m by simp
  have e: "exclude tenth_stack = [[False], [False], [False]]"
    unfolding tenth_stack_def
    using clip_combine_copies(1) [OF _ f, of 3] by (simp add: replicate_eval)
  have col: "column tenth_stack 0 = [tenth, tenth, tenth]"
    by (simp add: tenth_stack_def copies_def column_def replicate_eval)
  show ?thesis
    using c e col by (simp add: tenth_def)
qed

text \<open>
  C4 (as the code has it). At every pixel of a stack of at least one image whose samples
  at the pixel are finite, the median that the code takes is the median of the pixel's
  samples, the median absolute deviation is the median of the absolute deviations of the
  samples from that median, and the scale \<^verbatim>\<open>mad_sigma\<close> is the median absolute deviation
  times the binary64 number 1.482602218505602, the product rounded to binary64.
\<close>

theorem mad_sigma_is_scaled_median_deviation:
  assumes "wf_array bits" and "j < n_cols bits" and "rows bits \<noteq> []"
    and "list_all is_finite (column bits j)"
  shows "is_median (np_median_axis0 bits ! j) (column bits j) \<and>
         is_median (median_absolute_deviation bits ! j)
           (map (\<lambda>x. fabs (fsub x (np_median_axis0 bits ! j))) (column bits j)) \<and>
         mad_std bits ! j =
           scaled_by (1669261699700125 / 1125899906842624) (median_absolute_deviation bits ! j)"
  using mad_std_is_scaled_median [OF assms] by simp

theorem mad_sigma_is_scaled_median_deviation_witness:
  "wf_array high_outlier_stack \<and> 0 < n_cols high_outlier_stack \<and>
   rows high_outlier_stack \<noteq> [] \<and> list_all is_finite (column high_outlier_stack 0) \<and>
   is_median (Fin 2) [Fin 0, Fin 1, Fin 2, Fin 3, Fin 100] \<and>
   is_median (Fin 1) (map (\<lambda>x. fabs (fsub x (Fin 2))) [Fin 0, Fin 1, Fin 2, Fin 3, Fin 100]) \<and>
   mad_std high_outlier_stack ! 0 = scaled_by (1669261699700125 / 1125899906842624) (Fin 1)"
proof -
  have w: "wf_array high_outlier_stack"
    by (simp add: wf_array_def high_outlier_stack_def)
  have j: "0 < n_cols high_outlier_stack"
    by (simp add: high_outlier_stack_def)
  have r: "rows high_outlier_stack \<noteq> []"
    by (simp add: high_outlier_stack_def)
  have f: "list_all is_finite (column high_outlier_stack 0)"
    by (simp add: high_outlier_stack_def column_def is_finite_def)
  show ?thesis
    using w j r f mad_sigma_is_scaled_median_deviation [OF w j r f]
    by (simp add: medians_high_outlier_stack)
qed

text \<open>
  C4 as stated fails: for the samples 0, 1, 2, 3, 100 the median is 2 and the median of the
  absolute deviations is 1, so 1.4826 times it is 1.4826; the scale of the code is
  1.482602218505602.
\<close>

theorem mad_factor_is_not_1_4826:
  "is_median (Fin 2) (column high_outlier_stack 0) \<and>
   is_median (Fin 1) (map (\<lambda>x. fabs (fsub x (Fin 2))) (column high_outlier_stack 0)) \<and>
   scaled_by (14826 / 10000) (Fin 1) = Fin (6677036807539497 / 4503599627370496) \<and>
   mad_std high_outlier_stack ! 0 = Fin (1669261699700125 / 1125899906842624) \<and>
   mad_std high_outlier_stack ! 0 \<noteq> scaled_by (14826 / 10000) (Fin 1)"
proof -
  have s: "scaled_by (14826 / 10000) (Fin 1) = Fin (6677036807539497 / 4503599627370496)"
    by (simp add: scaled_by_def round64_eval)
  have d: "map (\<lambda>x. fabs (fsub x (Fin 2))) [Fin 0, Fin 1, Fin 2, Fin 3, Fin 100] =
           [Fin 2, Fin 1, Fin 0, Fin 1, Fin 98]"
    by (simp add: float_eval round64_eval)
  have 1: "is_median (Fin 2) (column high_outlier_stack 0)"
    unfolding medians_high_outlier_stack(1) by (rule is_median_high_outlier_stack(1))
  have 2: "is_median (Fin 1) (map (\<lambda>x. fabs (fsub x (Fin 2))) (column high_outlier_stack 0))"
    unfolding medians_high_outlier_stack(1) d by (rule is_median_high_outlier_stack(2))
  have 3: "mad_std high_outlier_stack ! 0 = Fin (1669261699700125 / 1125899906842624)"
    by (simp add: medians_high_outlier_stack(4))
  have 4: "mad_std high_outlier_stack ! 0 \<noteq> scaled_by (14826 / 10000) (Fin 1)"
    unfolding 3 s by simp
  from 1 2 s 3 4 show ?thesis
    by (intro conjI)
qed

text \<open>
  C5. After the clipping cell has run, \<^verbatim>\<open>bits\<close> holds exactly its original values: the
  samples overwritten with NaN are all put back.
\<close>

theorem clip_combine_restores_bits:
  "wf_array bits \<Longrightarrow> \<exists>combined. clip_combine bits = Inr (bits, combined)"
  by (simp add: clip_combine_returns)

theorem clip_combine_restores_bits_witness:
  "wf_array high_outlier_stack \<and>
   (\<exists>combined. clip_combine high_outlier_stack = Inr (high_outlier_stack, combined))"
proof -
  have w: "wf_array high_outlier_stack"
    by (simp add: wf_array_def high_outlier_stack_def)
  show ?thesis
    using w clip_combine_restores_bits [OF w] by simp
qed

text \<open>
  C6. With a single image of binary64 values in the stack, no sample is rejected and the
  combined image is that image.
\<close>

theorem single_image_unchanged:
  assumes "rows bits = [r]" and "length r = n_cols bits" and "list_all is_f64 r"
  shows "exclude bits = [replicate (n_cols bits) False] \<and> clip_combine bits = Inr (bits, r)"
  using assms by (rule one_image_stack)

theorem single_image_unchanged_witness:
  "rows single_image_stack = [[tenth, Fin 1000, NaN]] \<and>
   length [tenth, Fin 1000, NaN] = n_cols single_image_stack \<and>
   list_all is_f64 [tenth, Fin 1000, NaN] \<and>
   exclude single_image_stack = [replicate (n_cols single_image_stack) False] \<and>
   clip_combine single_image_stack = Inr (single_image_stack, [tenth, Fin 1000, NaN])"
proof -
  have r: "rows single_image_stack = [[tenth, Fin 1000, NaN]]"
    by (simp add: single_image_stack_def)
  have l: "length [tenth, Fin 1000, NaN] = n_cols single_image_stack"
    by (simp add: single_image_stack_def)
  have f: "list_all is_f64 [tenth, Fin 1000, NaN]"
    by (simp add: tenth_is_f64) (simp add: is_f64_def round64_eval)
  show ?thesis
    using r l f single_image_unchanged [OF r l f] by simp
qed

text \<open>
  C7 (as the code has it). Combining a stack of at least one image and then combining a
  stack of N copies of the combined image rejects no sample in the second combination and
  returns, for each pixel, what \<^verbatim>\<open>np.nanmean\<close> makes of the N copies of its value.
\<close>

theorem recombining_copies:
  assumes "wf_array bits" and "rows bits \<noteq> []"
  shows "exclude (recombine bits) =
           replicate (length (rows bits)) (replicate (n_cols bits) False) \<and>
         clip_combine (recombine bits) =
           Inr (recombine bits,
                map (\<lambda>x. nanmean_col (n_cols bits = 1) (replicate (length (rows bits)) x))
                  (combined_image bits))"
proof -
  have n: "0 < length (rows bits)"
    using assms(2) by simp
  have f: "list_all is_f64 (combined_image bits)"
    using clip_combine_is_f64 [OF assms(1)] by (simp add: combined_image_def)
  have l: "length (combined_image bits) = n_cols bits"
    using clip_combine_length [OF assms(1)] by (simp add: combined_image_def)
  show ?thesis
    using clip_combine_copies [OF n f] by (simp add: recombine_def l)
qed

theorem recombining_copies_witness:
  "wf_array nine_tenths_stack \<and> rows nine_tenths_stack \<noteq> [] \<and>
   exclude (recombine nine_tenths_stack) =
     replicate (length (rows nine_tenths_stack))
       (replicate (n_cols nine_tenths_stack) False) \<and>
   clip_combine (recombine nine_tenths_stack) =
     Inr (recombine nine_tenths_stack,
          map (\<lambda>x. nanmean_col (n_cols nine_tenths_stack = 1)
                      (replicate (length (rows nine_tenths_stack)) x))
            (combined_image nine_tenths_stack))"
proof -
  have w: "wf_array nine_tenths_stack"
    by (simp add: wf_array_def nine_tenths_stack_def copies_def replicate_eval)
  have r: "rows nine_tenths_stack \<noteq> []"
    by (simp add: nine_tenths_stack_def copies_def replicate_eval)
  show ?thesis
    using w r recombining_copies [OF w r] by simp
qed

text \<open>
  C7 as stated fails: seven images with the pixel 0.9 combine to 0.9000000000000001, and
  seven copies of that image combine to 0.9000000000000002.
\<close>

theorem recombined_image_differs:
  "combined_image nine_tenths_stack = [Fin (4053239664633447 / 4503599627370496)] \<and>
   combined_image (recombine nine_tenths_stack) =
     [Fin (8106479329266895 / 9007199254740992)] \<and>
   combined_image (recombine nine_tenths_stack) \<noteq> combined_image nine_tenths_stack"
proof -
  have f1: "list_all is_f64 [nine_tenths]"
    by (simp add: nine_tenths_is_f64)
  have f2: "list_all is_f64 [Fin (4053239664633447 / 4503599627370496)]"
    by (simp add: is_f64_def round64_eval)
  have m1: "nanmean_col True (replicate 7 nine_tenths) =
            Fin (4053239664633447 / 4503599627370496)"
    by (simp add: nine_tenths_def replicate_eval nanmean_col_def sum_eval float_eval
        round64_eval)
  have m2: "nanmean_col True (replicate 7 (Fin (4053239664633447 / 4503599627370496))) =
            Fin (8106479329266895 / 9007199254740992)"
    by (simp add: replicate_eval nanmean_col_def sum_eval float_eval round64_eval)
  have 1: "combined_image nine_tenths_stack = [Fin (4053239664633447 / 4503599627370496)]"
    unfolding nine_tenths_stack_def combined_image_def
    using clip_combine_copies(2) [OF _ f1, of 7] m1 by simp
  have l: "length (rows nine_tenths_stack) = 7"
    by (simp add: nine_tenths_stack_def copies_def)
  have 2: "combined_image (recombine nine_tenths_stack) =
           [Fin (8106479329266895 / 9007199254740992)]"
    unfolding recombine_def 1 l
    using clip_combine_copies(2) [OF _ f2, of 7] m2 by (simp add: combined_image_def)
  show ?thesis
    using 1 2 by simp
qed

text \<open>
  C8 (as the code has it). With no image in the stack (N = 0) the cells raise nothing: they
  leave the empty array as it is and return NaN as the combined value of each of its P
  pixels.
\<close>

theorem empty_stack_returns_NaN:
  "clip_combine \<lparr>n_cols = p, rows = []\<rparr> = Inr (\<lparr>n_cols = p, rows = []\<rparr>, replicate p NaN)"
proof -
  have "nanmean_axis0 \<lparr>n_cols = p, rows = []\<rparr> = map (\<lambda>j. NaN) [0..<p]"
    by (simp add: nanmean_axis0_def column_def nanmean_col_def np_sum_def pairwise_sum_short
        fadd_def fdiv_def round64_0 inf_of_sign_def)
  then have "nanmean_axis0 \<lparr>n_cols = p, rows = []\<rparr> = replicate p NaN"
    by (simp add: map_replicate_const)
  then show ?thesis
    by (simp add: clip_combine_def exclude_def clip_mask_def mask_select_def mask_fill_def
        mask_assign_def count_true_def Let_def)
qed

text \<open>
  C8 as stated fails: with no image in the stack (N = 0) nothing is raised; the cells
  return NaN for the pixel.
\<close>

theorem empty_stack_not_rejected:
  "\<not> isl (clip_combine empty_stack) \<and> combined_image empty_stack = [NaN]"
  by (simp add: empty_stack_def combined_image_def clip_combine_def array_eval float_eval
      round64_0)

text \<open>
  C10. In the stack 5, 5, 5, 0 the median absolute deviation of the pixel is zero and the
  last sample lies below the median. Its deviation is minus infinity, and the cell does
  not reject it.
\<close>

theorem zero_mad_low_sample_kept:
  "mad_std zero_mad_stack = [Fin 0] \<and>
   signed_deviation zero_mad_stack 3 0 = NInf \<and>
   exclude zero_mad_stack = [[False], [False], [False], [False]]"
proof -
  have m: "mad_std zero_mad_stack = [Fin 0]"
    by (simp add: zero_mad_stack_def array_eval float_eval round64_eval mad_factor_value)
  have d: "signed_deviation zero_mad_stack 3 0 = NInf"
    by (simp add: zero_mad_stack_def spec_eval array_eval float_eval round64_eval
        mad_factor_value)
  have e: "exclude zero_mad_stack = [[False], [False], [False], [False]]"
    by (simp add: zero_mad_stack_def array_eval float_eval round64_eval mad_factor_value)
  show ?thesis
    using m d e by simp
qed

end
